theory Spec2Isabelle
  imports Main "HOL-Library.Word" "HOL-Library.List_Lexorder"
begin

unbundle bit_operations_syntax

section \<open>Bytes, errors and the Go library calls the package relies on\<close>

text \<open>
  A Go \<open>[]byte\<close> is a list of 8-bit words. \<open>bytes.Compare\<close> orders byte slices
  lexicographically by unsigned byte value, a proper prefix being smaller: that is the
  order of \<open>HOL-Library.List_Lexorder\<close> on \<open>8 word list\<close>.
\<close>

type_synonym byte = "8 word"
type_synonym bytes = "byte list"

definition bytes_Compare :: "bytes \<Rightarrow> bytes \<Rightarrow> int" where
  "bytes_Compare a b = (if a < b then - 1 else if a = b then 0 else 1)"

text \<open>
  Every error value and panic the modelled code can produce. The first group are the
  library's (\<open>io.EOF\<close>, \<open>io.ErrUnexpectedEOF\<close>, the failures of \<open>os.OpenFile\<close>,
  \<open>Seek\<close> and of any call on a closed file), the second group the
  \<open>errors.New\<close> values of the package. The last two are not error values: the
  run-time panic of an index expression out of range, and the fatal error of the runtime
  when the operating system does not grant the memory an allocation asks for. The package
  recovers from no panic and a fatal error cannot be recovered from, so either ends the
  process: the call that meets it returns nothing, and nothing after it runs.
\<close>

datatype error =
    EOF
  | ErrUnexpectedEOF
  | ErrNotExist
  | ErrInvalidSeek
  | ErrClosed
  | ErrWrongMagic
  | ErrInvalidIndexBlockType
  | ErrIndexCRCMismatch
  | ErrIndexNotLoaded
  | ErrBlockCRCMismatch
  | ErrKeyNotFound
  | ErrFooterExceeds
  | PanicIndexOutOfRange
  | FatalOutOfMemory

fun crashes :: "error \<Rightarrow> bool" where
  "crashes PanicIndexOutOfRange = True"
| "crashes FatalOutOfMemory = True"
| "crashes _ = False"

text \<open>
  \<open>binary.Write(buf, binary.LittleEndian, v)\<close> for an unsigned integer of \<open>n\<close> bytes:
  the low byte first. \<open>get_le\<close> is what \<open>binary.Read\<close> computes from the bytes.
\<close>

fun put_le :: "nat \<Rightarrow> nat \<Rightarrow> bytes" where
  "put_le 0 v = []"
| "put_le (Suc n) v = of_nat (v mod 256) # put_le n (v div 256)"

fun get_le :: "bytes \<Rightarrow> nat" where
  "get_le [] = 0"
| "get_le (b # bs) = unat b + 256 * get_le bs"

definition put_u32 :: "32 word \<Rightarrow> bytes" where
  "put_u32 w = put_le 4 (unat w)"

definition put_u64 :: "64 word \<Rightarrow> bytes" where
  "put_u64 w = put_le 8 (unat w)"

definition get_u32 :: "bytes \<Rightarrow> 32 word" where
  "get_u32 bs = of_nat (get_le bs)"

definition get_u64 :: "bytes \<Rightarrow> 64 word" where
  "get_u64 bs = of_nat (get_le bs)"

text \<open>
  \<open>io.ReadFull\<close> on a \<open>bytes.Reader\<close> whose unread part is \<open>buf\<close>, asking for \<open>n\<close>
  bytes: the bytes and the rest, \<open>io.EOF\<close> when nothing was left, and
  \<open>io.ErrUnexpectedEOF\<close> when fewer than \<open>n\<close> were. A request for no byte succeeds
  without reading. \<open>binary.Read\<close> of a fixed-size value is \<open>io.ReadFull\<close> of its size.
\<close>

definition io_ReadFull :: "nat \<Rightarrow> bytes \<Rightarrow> error + (bytes \<times> bytes)" where
  "io_ReadFull n buf =
     (if n \<le> length buf then Inr (take n buf, drop n buf)
      else if buf = [] then Inl EOF
      else Inl ErrUnexpectedEOF)"

text \<open>
  \<open>(*bytes.Reader).Read(p)\<close> with \<open>len(p) = n\<close>, as the standard library has it:
  \<^verbatim>\<open>
  func (r *Reader) Read(b []byte) (n int, err error) {
      if r.i >= int64(len(r.s)) { return 0, io.EOF }
      r.prevRune = -1
      n = copy(b, r.s[r.i:])
      r.i += int64(n)
      return
  }
  \<close>
  At the end of the buffer it returns \<open>io.EOF\<close>, also when \<open>p\<close> is empty; otherwise it
  copies what is there and returns no error, also when that is less than \<open>n\<close> bytes. The
  caller's slice comes from \<open>make([]byte, n)\<close>, so the bytes not copied stay zero.
\<close>

definition Reader_Read :: "nat \<Rightarrow> bytes \<Rightarrow> error + (bytes \<times> bytes)" where
  "Reader_Read n buf =
     (if buf = [] then Inl EOF
      else Inr (take n buf @ replicate (n - length buf) 0, drop n buf))"

text \<open>
  \<open>make([]T, len, cap)\<close> asks the runtime for \<open>cap\<close> times the size of \<open>T\<close> bytes. A
  request that the operating system does not grant is a fatal error
  (\<^verbatim>\<open>fatal error: runtime: out of memory\<close>) and the process ends there. What is granted
  depends on the machine, so the operations of the reader take a parameter \<open>mem\<close>, the
  largest request, in bytes, that is granted, and \<open>makeslice mem sz cap\<close> tells whether
  the request for \<open>cap\<close> elements of \<open>sz\<close> bytes is. \<open>mem\<close> bounds each request by
  itself: what the process already holds is not counted. It is asked for every \<open>make\<close>
  whose length or capacity was read from the file. A \<open>make\<close> of a constant size (the 64
  bytes of the footer, the 14 of a metadata record) and the allocations of the writer,
  which are as large as the data the caller holds in memory already, are taken as granted.
  The sizes are those of a 64-bit platform: a slice header has 24 bytes, so an \<open>Entry\<close>
  (two slices) has 48 and an \<open>IndexEntry\<close> (a slice and two \<open>uint64\<close>) has 40. Counts and
  lengths in the file are 32-bit, so a request stays below the \<open>2^48\<close> bytes above which
  \<open>make\<close> panics instead.
\<close>

definition sizeof_Entry :: nat where
  "sizeof_Entry = 48"

definition sizeof_IndexEntry :: nat where
  "sizeof_IndexEntry = 40"

definition makeslice :: "nat \<Rightarrow> nat \<Rightarrow> nat \<Rightarrow> bool" where
  "makeslice mem sz cap = (sz * cap \<le> mem)"

text \<open>
  \<open>crc32.ChecksumIEEE\<close>: the CRC-32 of the IEEE polynomial, bit by bit in its reflected
  form (\<open>0xEDB88320\<close>), register initialised to all ones and complemented at the end.
\<close>

definition crc_bit :: "32 word \<Rightarrow> 32 word" where
  "crc_bit c = (if bit c 0 then drop_bit 1 c XOR 0xEDB88320 else drop_bit 1 c)"

definition crc_byte :: "32 word \<Rightarrow> byte \<Rightarrow> 32 word" where
  "crc_byte c b = (crc_bit ^^ 8) (c XOR ucast b)"

definition ChecksumIEEE :: "bytes \<Rightarrow> 32 word" where
  "ChecksumIEEE data = foldl crc_byte 0xFFFFFFFF data XOR 0xFFFFFFFF"

definition calculateCRC :: "bytes \<Rightarrow> 32 word" where
  "calculateCRC data = ChecksumIEEE data"

section \<open>The format: constants, metadata, handles, footer\<close>

type_synonym BlockType = byte

definition DataBlock :: BlockType where
  "DataBlock = 0"

definition IndexBlock :: BlockType where
  "IndexBlock = 1"

type_synonym CompressionType = byte

definition NoCompression :: CompressionType where
  "NoCompression = 0"

definition MagicNumber :: "64 word" where
  "MagicNumber = 0x8773537461626c65"

definition CurrentVersion :: "32 word" where
  "CurrentVersion = 1"

definition BlockSize :: "32 word" where
  "BlockSize = 4 * 1024"

definition FooterSize :: nat where
  "FooterSize = 64"

record BlockMetadata =
  Type :: BlockType
  CRC :: "32 word"
  Size_md :: "32 word"
  KeyCount_md :: "32 word"
  Compressed :: bool

record BlockHandle =
  Offset :: "64 word"
  Size :: "64 word"

record Footer =
  IndexHandle :: BlockHandle
  FilterHandle :: BlockHandle
  MagicNumber_f :: "64 word"
  Version :: "32 word"
  CreatedAt :: "64 word"
  CompressionType_f :: CompressionType

text \<open>
  \<open>binary.Write\<close> and \<open>binary.Read\<close> of a \<open>BlockMetadata\<close>: the fields in order, without
  padding, a bool as one byte (written 1 or 0, read as true when not 0). Its
  \<open>binary.Size\<close> is 14.
\<close>

definition binary_Size_BlockMetadata :: nat where
  "binary_Size_BlockMetadata = 14"

definition put_BlockMetadata :: "BlockMetadata \<Rightarrow> bytes" where
  "put_BlockMetadata m =
     [Type m] @ put_u32 (CRC m) @ put_u32 (Size_md m) @ put_u32 (KeyCount_md m)
     @ [if Compressed m then 1 else 0]"

definition get_BlockMetadata :: "bytes \<Rightarrow> BlockMetadata" where
  "get_BlockMetadata bs =
     \<lparr>Type = bs ! 0,
      CRC = get_u32 (take 4 (drop 1 bs)),
      Size_md = get_u32 (take 4 (drop 5 bs)),
      KeyCount_md = get_u32 (take 4 (drop 9 bs)),
      Compressed = (bs ! 13 \<noteq> 0)\<rparr>"

definition put_BlockHandle :: "BlockHandle \<Rightarrow> bytes" where
  "put_BlockHandle h = put_u64 (Offset h) @ put_u64 (Size h)"

definition get_BlockHandle :: "bytes \<Rightarrow> BlockHandle" where
  "get_BlockHandle bs = \<lparr>Offset = get_u64 (take 8 bs), Size = get_u64 (take 8 (drop 8 bs))\<rparr>"

definition Footer_Encode :: "Footer \<Rightarrow> bytes" where
  "Footer_Encode f =
     put_BlockHandle (IndexHandle f) @ put_BlockHandle (FilterHandle f)
     @ put_u64 (MagicNumber_f f) @ put_u32 (Version f) @ put_u64 (CreatedAt f)
     @ [CompressionType_f f]"

text \<open>Each \<open>binary.Read\<close> of \<open>DecodeFooter\<close> can fail on a short buffer.\<close>

definition DecodeFooter :: "bytes \<Rightarrow> error + Footer" where
  "DecodeFooter data =
     (case io_ReadFull 16 data of Inl e \<Rightarrow> Inl e | Inr (ih, b1) \<Rightarrow>
     (case io_ReadFull 16 b1 of Inl e \<Rightarrow> Inl e | Inr (fh, b2) \<Rightarrow>
     (case io_ReadFull 8 b2 of Inl e \<Rightarrow> Inl e | Inr (mg, b3) \<Rightarrow>
     (case io_ReadFull 4 b3 of Inl e \<Rightarrow> Inl e | Inr (vs, b4) \<Rightarrow>
     (case io_ReadFull 8 b4 of Inl e \<Rightarrow> Inl e | Inr (ca, b5) \<Rightarrow>
     (case io_ReadFull 1 b5 of Inl e \<Rightarrow> Inl e | Inr (ct, b6) \<Rightarrow>
        Inr \<lparr>IndexHandle = get_BlockHandle ih, FilterHandle = get_BlockHandle fh,
             MagicNumber_f = get_u64 mg, Version = get_u32 vs, CreatedAt = get_u64 ca,
             CompressionType_f = ct ! 0\<rparr>))))))"

section \<open>Block and index block\<close>

record Entry =
  Key :: bytes
  Value :: bytes

text \<open>The field \<open>size\<close> of the Go struct is \<open>size_b\<close> here (\<open>size\<close> is a HOL constant).\<close>

record Block =
  entries :: "Entry list"
  size_b :: "32 word"

definition NewBlock :: Block where
  "NewBlock = \<lparr>entries = [], size_b = 0\<rparr>"

definition AddEntry :: "Block \<Rightarrow> bytes \<Rightarrow> bytes \<Rightarrow> Block" where
  "AddEntry b key val =
     \<lparr>entries = entries b @ [\<lparr>Key = key, Value = val\<rparr>],
      size_b = size_b b + of_nat (length key + length val)\<rparr>"

definition IsFull :: "Block \<Rightarrow> bool" where
  "IsFull b = (size_b b \<ge> BlockSize)"

definition IsEmpty :: "Block \<Rightarrow> bool" where
  "IsEmpty b = (length (entries b) = 0)"

definition KeyCount :: "Block \<Rightarrow> nat" where
  "KeyCount b = length (entries b)"

definition put_Entry :: "Entry \<Rightarrow> bytes" where
  "put_Entry e =
     put_u32 (of_nat (length (Key e))) @ Key e @ put_u32 (of_nat (length (Value e))) @ Value e"

definition Encode :: "Block \<Rightarrow> bytes" where
  "Encode b = put_u32 (of_nat (length (entries b))) @ concat (map put_Entry (entries b))"

record IndexEntry =
  Key_ie :: bytes
  BlockHandle_ie :: BlockHandle

record IBlock =
  entries_ib :: "IndexEntry list"

definition NewIBlock :: IBlock where
  "NewIBlock = \<lparr>entries_ib = []\<rparr>"

definition IBlock_AddEntry :: "IBlock \<Rightarrow> bytes \<Rightarrow> BlockHandle \<Rightarrow> IBlock" where
  "IBlock_AddEntry ib key h =
     \<lparr>entries_ib = entries_ib ib @ [\<lparr>Key_ie = key, BlockHandle_ie = h\<rparr>]\<rparr>"

definition put_IndexEntry :: "IndexEntry \<Rightarrow> bytes" where
  "put_IndexEntry e =
     put_u32 (of_nat (length (Key_ie e))) @ Key_ie e
     @ put_u64 (Offset (BlockHandle_ie e)) @ put_u64 (Size (BlockHandle_ie e))"

definition IBlock_Encode :: "IBlock \<Rightarrow> bytes" where
  "IBlock_Encode ib =
     put_u32 (of_nat (length (entries_ib ib))) @ concat (map put_IndexEntry (entries_ib ib))"

section \<open>Writer\<close>

text \<open>
  The file is the sequence of bytes written to it; writes to it and to the
  \<open>bufio.Writer\<close> in front of it succeed (the model has no failing disk).
  \<open>bufWriter\<close> holds the bytes handed to the \<open>bufio.Writer\<close> and not yet passed on, which
  \<open>Flush\<close> appends to the file: the buffered writer passes bytes on in the order it got
  them, so the file after \<open>Flush\<close> does not depend on when it emptied its buffer.
  The file name, made from the clock, is left out; \<open>NewWriter\<close> starts a file of no bytes.
  (It opens the file with \<open>O_CREATE|O_WRONLY\<close> and does not truncate: the model takes the
  name as new, as it is when no two writers are created in the same second.)
\<close>

record Writer =
  file_w :: bytes
  block :: Block
  index :: IBlock
  bufWriter :: bytes
  offset :: "64 word"

definition NewWriter :: Writer where
  "NewWriter =
     \<lparr>file_w = [], block = NewBlock, index = NewIBlock, bufWriter = [], offset = 0\<rparr>"

definition flushBlock :: "Writer \<Rightarrow> Writer" where
  "flushBlock w =
     (if IsEmpty (block w) then w
      else
        let firstKey = Key (hd (entries (block w)));
            blockHandle = \<lparr>Offset = offset w, Size = ucast (size_b (block w))\<rparr>;
            index' = IBlock_AddEntry (index w) firstKey blockHandle;
            data = Encode (block w);
            metadata = \<lparr>Type = DataBlock, CRC = ChecksumIEEE data,
                        Size_md = of_nat (length data),
                        KeyCount_md = of_nat (KeyCount (block w)), Compressed = False\<rparr>
        in w\<lparr>index := index',
              bufWriter := bufWriter w @ put_BlockMetadata metadata @ data,
              offset := offset w + (of_nat (length data) + of_nat binary_Size_BlockMetadata),
              block := NewBlock\<rparr>)"

definition Write :: "Writer \<Rightarrow> bytes \<Rightarrow> bytes \<Rightarrow> Writer" where
  "Write w key val =
     (let w1 = (if IsFull (block w) then flushBlock w else w)
      in w1\<lparr>block := AddEntry (block w1) key val\<rparr>)"

text \<open>
  \<open>Close\<close> returns the bytes of the file it closed, or the one error it can raise by
  itself. \<open>now\<close> is \<open>time.Now().Unix()\<close>.
\<close>

definition Close :: "64 word \<Rightarrow> Writer \<Rightarrow> error + bytes" where
  "Close now w =
     (let w1 = flushBlock w;
          indexOffset = offset w1;
          indexData = IBlock_Encode (index w1);
          indexMetadata = \<lparr>Type = IndexBlock, CRC = calculateCRC indexData,
                            Size_md = of_nat (length indexData),
                            KeyCount_md = of_nat (length (entries_ib (index w1))),
                            Compressed = False\<rparr>;
          w2 = w1\<lparr>bufWriter := bufWriter w1 @ put_BlockMetadata indexMetadata @ indexData,
                    offset := offset w1
                       + (of_nat (length indexData) + of_nat binary_Size_BlockMetadata)\<rparr>;
          footer = \<lparr>IndexHandle = \<lparr>Offset = indexOffset, Size = of_nat (length indexData)\<rparr>,
                     FilterHandle = \<lparr>Offset = 0, Size = 0\<rparr>,
                     MagicNumber_f = MagicNumber, Version = CurrentVersion, CreatedAt = now,
                     CompressionType_f = NoCompression\<rparr>;
          w3 = w2\<lparr>file_w := file_w w2 @ bufWriter w2, bufWriter := []\<rparr>;
          footerData = Footer_Encode footer
      in if length footerData > FooterSize then Inl ErrFooterExceeds
         else
           let footerData' =
                 (if length footerData < FooterSize
                  then footerData @ replicate (FooterSize - length footerData) 0
                  else footerData)
           in Inr (file_w w3 @ footerData'))"

text \<open>A writer session: the pairs written in order to a new writer.\<close>

definition write_all :: "(bytes \<times> bytes) list \<Rightarrow> Writer" where
  "write_all kvs = foldl (\<lambda>w (k, v). Write w k v) NewWriter kvs"

section \<open>Files as the reader sees them\<close>

text \<open>
  An open file: its bytes, the cursor, and whether it was closed. \<open>Seek\<close> (from the
  start) refuses a negative offset and accepts one past the end; \<open>io.ReadFull\<close> on the
  file reads from the cursor and leaves it after what it read. An offset so large that the
  file system refuses it is accepted here, and the read that follows it fails instead:
  the code returns an error either way.
\<close>

record File =
  contents :: bytes
  pos :: nat
  closed :: bool

definition os_OpenFile :: "(string \<Rightarrow> bytes option) \<Rightarrow> string \<Rightarrow> error + File" where
  "os_OpenFile fs name =
     (case fs name of
        None \<Rightarrow> Inl ErrNotExist
      | Some d \<Rightarrow> Inr \<lparr>contents = d, pos = 0, closed = False\<rparr>)"

definition File_Close :: "File \<Rightarrow> File" where
  "File_Close f = f\<lparr>closed := True\<rparr>"

definition File_Stat_Size :: "File \<Rightarrow> error + int" where
  "File_Stat_Size f = (if closed f then Inl ErrClosed else Inr (int (length (contents f))))"

definition File_Seek :: "File \<Rightarrow> int \<Rightarrow> error + File" where
  "File_Seek f off =
     (if closed f then Inl ErrClosed
      else if off < 0 then Inl ErrInvalidSeek
      else Inr (f\<lparr>pos := nat off\<rparr>))"

definition File_ReadFull :: "File \<Rightarrow> nat \<Rightarrow> (error + bytes) \<times> File" where
  "File_ReadFull f n =
     (if n = 0 then (Inr [], f)
      else if closed f then (Inl ErrClosed, f)
      else
        (case io_ReadFull n (drop (pos f) (contents f)) of
           Inl e \<Rightarrow> (Inl e, f\<lparr>pos := max (pos f) (length (contents f))\<rparr>)
         | Inr (bs, rest) \<Rightarrow> (Inr bs, f\<lparr>pos := pos f + n\<rparr>)))"

section \<open>Reader\<close>

record Reader =
  file_r :: File
  indexBlock :: "IBlock option"

text \<open>
  The loop of \<open>decodeIndexBlock\<close>: \<open>n\<close> entries still to read from \<open>buf\<close>, \<open>acc\<close> the
  entries appended so far. It returns the error, if any, and the entries the index block
  holds when it stops. Each turn allocates the key, \<open>make([]byte, keyLen)\<close>, before it
  reads it. The \<open>append\<close> stays within the capacity allocated before the loop.
\<close>

fun decodeIndexBlock_loop ::
  "nat \<Rightarrow> nat \<Rightarrow> bytes \<Rightarrow> IndexEntry list \<Rightarrow> error option \<times> IndexEntry list" where
  "decodeIndexBlock_loop mem 0 buf acc = (None, acc)"
| "decodeIndexBlock_loop mem (Suc n) buf acc =
     (case io_ReadFull 4 buf of Inl e \<Rightarrow> (Some e, acc) | Inr (kl, b1) \<Rightarrow>
      if \<not> makeslice mem 1 (unat (get_u32 kl)) then (Some FatalOutOfMemory, acc) else
     (case Reader_Read (unat (get_u32 kl)) b1 of Inl e \<Rightarrow> (Some e, acc) | Inr (key, b2) \<Rightarrow>
     (case io_ReadFull 8 b2 of Inl e \<Rightarrow> (Some e, acc) | Inr (off, b3) \<Rightarrow>
     (case io_ReadFull 8 b3 of Inl e \<Rightarrow> (Some e, acc) | Inr (sz, b4) \<Rightarrow>
        decodeIndexBlock_loop mem n b4
          (acc @ [\<lparr>Key_ie = key,
                    BlockHandle_ie = \<lparr>Offset = get_u64 off, Size = get_u64 sz\<rparr>\<rparr>])))))"

text \<open>
  \<open>decodeIndexBlock\<close> reads the count and allocates room for that many entries,
  \<open>make([]IndexEntry, 0, numEntries)\<close>, before it reads the first of them.
\<close>

definition decodeIndexBlock :: "nat \<Rightarrow> Reader \<Rightarrow> bytes \<Rightarrow> error option \<times> Reader" where
  "decodeIndexBlock mem r data =
     (case io_ReadFull 4 data of
        Inl e \<Rightarrow> (Some e, r)
      | Inr (n, b) \<Rightarrow>
          if \<not> makeslice mem sizeof_IndexEntry (unat (get_u32 n)) then (Some FatalOutOfMemory, r)
          else
          (case decodeIndexBlock_loop mem (unat (get_u32 n)) b [] of
             (err, es) \<Rightarrow> (err, r\<lparr>indexBlock := Some \<lparr>entries_ib = es\<rparr>\<rparr>)))"

definition loadIndexBlock :: "nat \<Rightarrow> Reader \<Rightarrow> error option \<times> Reader" where
  "loadIndexBlock mem r =
     (case File_Stat_Size (file_r r) of Inl e \<Rightarrow> (Some e, r) | Inr sz \<Rightarrow>
     (case File_Seek (file_r r) (sz - int FooterSize) of Inl e \<Rightarrow> (Some e, r) | Inr f1 \<Rightarrow>
     (case File_ReadFull f1 FooterSize of
        (Inl e, f2) \<Rightarrow> (Some e, r\<lparr>file_r := f2\<rparr>)
      | (Inr footerData, f2) \<Rightarrow>
     (case DecodeFooter footerData of Inl e \<Rightarrow> (Some e, r\<lparr>file_r := f2\<rparr>) | Inr footer \<Rightarrow>
      if MagicNumber_f footer \<noteq> MagicNumber then (Some ErrWrongMagic, r\<lparr>file_r := f2\<rparr>)
      else
     (case File_Seek f2 (sint (Offset (IndexHandle footer))) of
        Inl e \<Rightarrow> (Some e, r\<lparr>file_r := f2\<rparr>)
      | Inr f3 \<Rightarrow>
     (case File_ReadFull f3 binary_Size_BlockMetadata of
        (Inl e, f4) \<Rightarrow> (Some e, r\<lparr>file_r := f4\<rparr>)
      | (Inr mb, f4) \<Rightarrow>
      let metadata = get_BlockMetadata mb in
      if Type metadata \<noteq> IndexBlock then (Some ErrInvalidIndexBlockType, r\<lparr>file_r := f4\<rparr>)
      else if \<not> makeslice mem 1 (unat (Size_md metadata))
      then (Some FatalOutOfMemory, r\<lparr>file_r := f4\<rparr>)
      else
     (case File_ReadFull f4 (unat (Size_md metadata)) of
        (Inl e, f5) \<Rightarrow> (Some e, r\<lparr>file_r := f5\<rparr>)
      | (Inr data, f5) \<Rightarrow>
      if calculateCRC data \<noteq> CRC metadata then (Some ErrIndexCRCMismatch, r\<lparr>file_r := f5\<rparr>)
      else decodeIndexBlock mem (r\<lparr>file_r := f5, indexBlock := Some \<lparr>entries_ib = []\<rparr>\<rparr>) data)))))))"

text \<open>
  \<open>NewReader\<close> on a file system \<open>fs\<close> (the bytes of each file that can be opened). Beside
  its result it returns the file handle it opened, as the call leaves it. When
  \<open>loadIndexBlock\<close> ends the process, \<open>NewReader\<close> returns nothing and its \<open>file.Close()\<close>
  does not run: the result is then the fatal error, with the handle as it was.
\<close>

definition NewReader ::
  "nat \<Rightarrow> (string \<Rightarrow> bytes option) \<Rightarrow> string \<Rightarrow> (error + Reader) \<times> File option" where
  "NewReader mem fs filename =
     (case os_OpenFile fs filename of
        Inl e \<Rightarrow> (Inl e, None)
      | Inr f \<Rightarrow>
          (case loadIndexBlock mem \<lparr>file_r = f, indexBlock = None\<rparr> of
             (Some e, r) \<Rightarrow>
               if crashes e then (Inl e, Some (file_r r))
               else (Inl e, Some (File_Close (file_r r)))
           | (None, r) \<Rightarrow> (Inr r, Some (file_r r))))"

text \<open>
  An index expression \<open>xs[i]\<close> with an \<open>int\<close> index panics out of range. Go's \<open>/\<close> on
  \<open>int\<close> truncates towards zero. The indices are below the length of a slice in memory,
  far from the 64-bit bound, so \<open>left + right\<close> does not overflow and \<open>int\<close> is modelled
  unbounded. In \<open>findBlockHandle\<close> the first index expression, \<open>entries[right]\<close> with
  \<open>right = len(entries) - 1\<close>, panics on an empty index; past it \<open>right\<close> is not negative
  and the loop only adds and halves, so the loop runs on naturals.
\<close>

definition at_index :: "'a list \<Rightarrow> int \<Rightarrow> error + 'a" where
  "at_index xs i =
     (if 0 \<le> i \<and> i < int (length xs) then Inr (xs ! nat i) else Inl PanicIndexOutOfRange)"

definition go_div :: "int \<Rightarrow> int \<Rightarrow> int" where
  "go_div a b = (if (a < 0) = (b < 0) then \<bar>a\<bar> div \<bar>b\<bar> else - (\<bar>a\<bar> div \<bar>b\<bar>))"

lemma at_index_Inr: "at_index xs i = Inr x \<Longrightarrow> 0 \<le> i \<and> i < int (length xs) \<and> x = xs ! nat i"
  by (auto simp: at_index_def split: if_splits)

lemma go_div_nonneg: "0 \<le> a \<Longrightarrow> go_div a 2 = a div 2"
  by (simp add: go_div_def)

lemma go_div_mid: "l \<le> r \<Longrightarrow> l \<le> go_div (l + r) 2 \<and> go_div (l + r) 2 \<le> r"
  by (auto simp: go_div_def)

function findBlockHandle_loop :: "IndexEntry list \<Rightarrow> bytes \<Rightarrow> nat \<Rightarrow> nat \<Rightarrow> error + nat" where
  "findBlockHandle_loop es key left right =
     (if left < right then
        (let mid = (left + right) div 2 in
         case at_index es (int mid) of
           Inl e \<Rightarrow> Inl e
         | Inr em \<Rightarrow>
             if bytes_Compare (Key_ie em) key \<le> 0
             then findBlockHandle_loop es key (mid + 1) right
             else findBlockHandle_loop es key left mid)
      else Inr left)"
  by pat_completeness auto
termination
  by (relation "measure (\<lambda>(es, key, left, right). right - left)") auto

declare findBlockHandle_loop.simps [simp del]

definition findBlockHandle :: "IBlock \<Rightarrow> bytes \<Rightarrow> error + BlockHandle" where
  "findBlockHandle ib key =
     (let es = entries_ib ib; left = 0; right = int (length es) - 1 in
      case at_index es right of
        Inl e \<Rightarrow> Inl e
      | Inr er \<Rightarrow>
          if bytes_Compare key (Key_ie er) \<ge> 0 then Inr (BlockHandle_ie er)
          else
            (case findBlockHandle_loop es key left (nat right) of
               Inl e \<Rightarrow> Inl e
             | Inr l \<Rightarrow>
                 (let l' = (if l > 0 then l - 1 else l) in
                  case at_index es (int l') of
                    Inl e \<Rightarrow> Inl e
                  | Inr el \<Rightarrow> Inr (BlockHandle_ie el))))"

text \<open>
  The entry loop of \<open>readBlock\<close>, and the decoding part of \<open>readBlock\<close> around it. Each
  turn allocates the key and the value before it reads them; the decoding allocates room
  for the declared number of entries, \<open>make([]Entry, 0, numEntries)\<close>, before the loop.
\<close>

fun readBlock_loop :: "nat \<Rightarrow> nat \<Rightarrow> bytes \<Rightarrow> Entry list \<Rightarrow> error + Entry list" where
  "readBlock_loop mem 0 buf acc = Inr acc"
| "readBlock_loop mem (Suc n) buf acc =
     (case io_ReadFull 4 buf of Inl e \<Rightarrow> Inl e | Inr (kl, b1) \<Rightarrow>
      if \<not> makeslice mem 1 (unat (get_u32 kl)) then Inl FatalOutOfMemory else
     (case Reader_Read (unat (get_u32 kl)) b1 of Inl e \<Rightarrow> Inl e | Inr (key, b2) \<Rightarrow>
     (case io_ReadFull 4 b2 of Inl e \<Rightarrow> Inl e | Inr (vl, b3) \<Rightarrow>
      if \<not> makeslice mem 1 (unat (get_u32 vl)) then Inl FatalOutOfMemory else
     (case Reader_Read (unat (get_u32 vl)) b3 of Inl e \<Rightarrow> Inl e | Inr (val, b4) \<Rightarrow>
        readBlock_loop mem n b4 (acc @ [\<lparr>Key = key, Value = val\<rparr>])))))"

definition readBlock_decode :: "nat \<Rightarrow> bytes \<Rightarrow> error + Block" where
  "readBlock_decode mem data =
     (case io_ReadFull 4 data of
        Inl e \<Rightarrow> Inl e
      | Inr (n, b) \<Rightarrow>
          if \<not> makeslice mem sizeof_Entry (unat (get_u32 n)) then Inl FatalOutOfMemory
          else
          (case readBlock_loop mem (unat (get_u32 n)) b [] of
             Inl e \<Rightarrow> Inl e
           | Inr es \<Rightarrow> Inr \<lparr>entries = es, size_b = 0\<rparr>))"

definition readBlock :: "nat \<Rightarrow> File \<Rightarrow> BlockHandle \<Rightarrow> (error + Block) \<times> File" where
  "readBlock mem f handle =
     (case File_Seek f (sint (Offset handle)) of Inl e \<Rightarrow> (Inl e, f) | Inr f1 \<Rightarrow>
     (case File_ReadFull f1 binary_Size_BlockMetadata of
        (Inl e, f2) \<Rightarrow> (Inl e, f2)
      | (Inr mb, f2) \<Rightarrow>
      let metadata = get_BlockMetadata mb in
      if \<not> makeslice mem 1 (unat (Size_md metadata)) then (Inl FatalOutOfMemory, f2)
      else
     (case File_ReadFull f2 (unat (Size_md metadata)) of
        (Inl e, f3) \<Rightarrow> (Inl e, f3)
      | (Inr data, f3) \<Rightarrow>
      if calculateCRC data \<noteq> CRC metadata then (Inl ErrBlockCRCMismatch, f3)
      else (readBlock_decode mem data, f3))))"

function searchInBlock_loop :: "Entry list \<Rightarrow> bytes \<Rightarrow> int \<Rightarrow> int \<Rightarrow> error + bytes" where
  "searchInBlock_loop es key left right =
     (if left \<le> right then
        (let mid = go_div (left + right) 2 in
         case at_index es mid of
           Inl e \<Rightarrow> Inl e
         | Inr em \<Rightarrow>
             (let cmp = bytes_Compare (Key em) key in
              if cmp = 0 then Inr (Value em)
              else if cmp < 0 then searchInBlock_loop es key (mid + 1) right
              else searchInBlock_loop es key left (mid - 1)))
      else Inl ErrKeyNotFound)"
  by pat_completeness auto
termination
proof (relation "measure (\<lambda>(es, key, left, right). nat (right - left + 1))")
  show "wf (measure (\<lambda>(es, key, left, right). nat (right - left + 1)))"
    by simp
next
  fix es :: "Entry list" and key :: bytes and left right mid :: int
  assume lr: "left \<le> right" and m: "mid = go_div (left + right) 2"
  from lr go_div_mid [of left right] m have b: "left \<le> mid \<and> mid \<le> right" by simp
  from b show "((es, key, mid + 1, right), (es, key, left, right))
      \<in> measure (\<lambda>(es, key, left, right). nat (right - left + 1))"
    by simp
  from b show "((es, key, left, mid - 1), (es, key, left, right))
      \<in> measure (\<lambda>(es, key, left, right). nat (right - left + 1))"
    by simp
qed

declare searchInBlock_loop.simps [simp del]

definition searchInBlock :: "Block \<Rightarrow> bytes \<Rightarrow> error + bytes" where
  "searchInBlock b key = searchInBlock_loop (entries b) key 0 (int (length (entries b)) - 1)"

text \<open>\<open>Get\<close> returns its result and the reader with the file cursor where the call left it.\<close>

definition Get :: "nat \<Rightarrow> Reader \<Rightarrow> bytes \<Rightarrow> (error + bytes) \<times> Reader" where
  "Get mem r key =
     (case indexBlock r of
        None \<Rightarrow> (Inl ErrIndexNotLoaded, r)
      | Some ib \<Rightarrow>
          (case findBlockHandle ib key of
             Inl e \<Rightarrow> (Inl e, r)
           | Inr blockHandle \<Rightarrow>
               (case readBlock mem (file_r r) blockHandle of
                  (Inl e, f) \<Rightarrow> (Inl e, r\<lparr>file_r := f\<rparr>)
                | (Inr b, f) \<Rightarrow> (searchInBlock b key, r\<lparr>file_r := f\<rparr>))))"

section \<open>Sessions, sample inputs and auxiliary notions\<close>

text \<open>A sequence of \<open>AddEntry\<close> calls on a block, and the inputs the theorems are run on.\<close>

definition add_entries :: "Block \<Rightarrow> (bytes \<times> bytes) list \<Rightarrow> Block" where
  "add_entries b kvs = foldl (\<lambda>b (k, v). AddEntry b k v) b kvs"

definition es3 :: "IndexEntry list" where
  "es3 = [\<lparr>Key_ie = [1], BlockHandle_ie = \<lparr>Offset = 0, Size = 10\<rparr>\<rparr>,
          \<lparr>Key_ie = [3], BlockHandle_ie = \<lparr>Offset = 100, Size = 10\<rparr>\<rparr>,
          \<lparr>Key_ie = [5], BlockHandle_ie = \<lparr>Offset = 200, Size = 10\<rparr>\<rparr>]"


text \<open>
  The file that \<open>Close\<close> (at time 7) leaves after the one pair \<open>("a", "x")\<close> was written:
  metadata and payload of the data block, metadata and payload of the index block, footer.
  \<open>reader_ax\<close> is the reader \<open>NewReader\<close> returns on it, \<open>reader_bad\<close> the same with the
  last byte of the data block's payload changed.
\<close>

definition data_ax :: bytes where
  "data_ax = [1, 0, 0, 0, 1, 0, 0, 0, 97, 1, 0, 0, 0, 120]"

definition index_ax :: bytes where
  "index_ax = [1, 0, 0, 0, 1, 0, 0, 0, 97, 0, 0, 0, 0, 0, 0, 0, 0, 2, 0, 0, 0, 0, 0, 0, 0]"

definition footer_ax :: bytes where
  "footer_ax = [28, 0, 0, 0, 0, 0, 0, 0, 25, 0, 0, 0, 0, 0, 0, 0,
     0, 0, 0, 0, 0, 0, 0, 0, 0, 0, 0, 0, 0, 0, 0, 0,
     101, 108, 98, 97, 116, 83, 115, 135, 1, 0, 0, 0, 7, 0, 0, 0, 0, 0, 0, 0, 0,
     0, 0, 0, 0, 0, 0, 0, 0, 0, 0, 0]"

definition file_ax :: bytes where
  "file_ax = [0, 206, 255, 96, 3, 14, 0, 0, 0, 1, 0, 0, 0, 0] @ data_ax
     @ [1, 47, 134, 248, 101, 25, 0, 0, 0, 1, 0, 0, 0, 0] @ index_ax @ footer_ax"

definition fs_ax :: "string \<Rightarrow> bytes option" where
  "fs_ax name = (if name = ''ax.sst'' then Some file_ax else None)"

definition reader_ax :: Reader where
  "reader_ax =
     \<lparr>file_r = \<lparr>contents = file_ax, pos = 67, closed = False\<rparr>,
      indexBlock = Some \<lparr>entries_ib = [\<lparr>Key_ie = [97], BlockHandle_ie = \<lparr>Offset = 0, Size = 2\<rparr>\<rparr>]\<rparr>\<rparr>"

definition reader_bad :: Reader where
  "reader_bad = reader_ax\<lparr>file_r := \<lparr>contents = file_ax[27 := 121], pos = 67, closed = False\<rparr>\<rparr>"




text \<open>A file of 64 zero bytes, and a file of three bytes.\<close>

definition fs_zero :: "string \<Rightarrow> bytes option" where
  "fs_zero name = (if name = ''zero.sst'' then Some (replicate 64 0) else None)"

definition fs_short :: "string \<Rightarrow> bytes option" where
  "fs_short name = (if name = ''short.sst'' then Some [1, 2, 3] else None)"

text \<open>
  The file that \<open>Close\<close> (at time 7) leaves after the one pair \<open>("a", "")\<close> was written, with
  the reader \<open>NewReader\<close> returns on it; and the same for a session that wrote no pair.
\<close>

definition data_e :: bytes where
  "data_e = [1, 0, 0, 0, 1, 0, 0, 0, 97, 0, 0, 0, 0]"

definition index_e :: bytes where
  "index_e = [1, 0, 0, 0, 1, 0, 0, 0, 97, 0, 0, 0, 0, 0, 0, 0, 0, 1, 0, 0, 0, 0, 0, 0, 0]"

definition footer_e :: bytes where
  "footer_e = [27, 0, 0, 0, 0, 0, 0, 0, 25, 0, 0, 0, 0, 0, 0, 0,
     0, 0, 0, 0, 0, 0, 0, 0, 0, 0, 0, 0, 0, 0, 0, 0,
     101, 108, 98, 97, 116, 83, 115, 135, 1, 0, 0, 0, 7, 0, 0, 0, 0, 0, 0, 0, 0,
     0, 0, 0, 0, 0, 0, 0, 0, 0, 0, 0]"

definition file_e :: bytes where
  "file_e = [0, 185, 213, 203, 97, 13, 0, 0, 0, 1, 0, 0, 0, 0] @ data_e
     @ [1, 204, 129, 119, 235, 25, 0, 0, 0, 1, 0, 0, 0, 0] @ index_e @ footer_e"

definition fs_e :: "string \<Rightarrow> bytes option" where
  "fs_e name = (if name = ''e.sst'' then Some file_e else None)"

definition reader_e :: Reader where
  "reader_e =
     \<lparr>file_r = \<lparr>contents = file_e, pos = 66, closed = False\<rparr>,
      indexBlock = Some \<lparr>entries_ib = [\<lparr>Key_ie = [97], BlockHandle_ie = \<lparr>Offset = 0, Size = 1\<rparr>\<rparr>]\<rparr>\<rparr>"

definition footer_0 :: bytes where
  "footer_0 = [0, 0, 0, 0, 0, 0, 0, 0, 4, 0, 0, 0, 0, 0, 0, 0,
     0, 0, 0, 0, 0, 0, 0, 0, 0, 0, 0, 0, 0, 0, 0, 0,
     101, 108, 98, 97, 116, 83, 115, 135, 1, 0, 0, 0, 7, 0, 0, 0, 0, 0, 0, 0, 0,
     0, 0, 0, 0, 0, 0, 0, 0, 0, 0, 0]"

definition file_0 :: bytes where
  "file_0 = [1, 28, 223, 68, 33, 4, 0, 0, 0, 0, 0, 0, 0, 0] @ [0, 0, 0, 0] @ footer_0"

definition fs_0 :: "string \<Rightarrow> bytes option" where
  "fs_0 name = (if name = ''0.sst'' then Some file_0 else None)"

definition reader_0 :: Reader where
  "reader_0 =
     \<lparr>file_r = \<lparr>contents = file_0, pos = 18, closed = False\<rparr>,
      indexBlock = Some \<lparr>entries_ib = []\<rparr>\<rparr>"

text \<open>
  A file of 82 bytes like \<open>file_0\<close>, but the payload of its index block, four bytes with a
  valid CRC-32, declares \<open>2^32 - 1\<close> entries.
\<close>

definition file_big :: bytes where
  "file_big = [1, 255, 255, 255, 255, 4, 0, 0, 0, 0, 0, 0, 0, 0] @ [255, 255, 255, 255] @ footer_0"

definition fs_big :: "string \<Rightarrow> bytes option" where
  "fs_big name = (if name = ''big.sst'' then Some file_big else None)"

text \<open>
  The bytes \<open>flushBlock\<close> writes for a block (metadata, then payload), and the index entries
  it records for a sequence of blocks written from file offset \<open>off\<close> on.
\<close>

definition frame :: "Block \<Rightarrow> bytes" where
  "frame b =
     put_BlockMetadata \<lparr>Type = DataBlock, CRC = ChecksumIEEE (Encode b),
        Size_md = of_nat (length (Encode b)), KeyCount_md = of_nat (KeyCount b),
        Compressed = False\<rparr> @ Encode b"

fun index_of :: "nat \<Rightarrow> Block list \<Rightarrow> IndexEntry list" where
  "index_of off [] = []"
| "index_of off (b # bs) =
     \<lparr>Key_ie = Key (hd (entries b)),
      BlockHandle_ie = \<lparr>Offset = of_nat off, Size = ucast (size_b b)\<rparr>\<rparr>
     # index_of (off + length (frame b)) bs"

text \<open>
  A writer that has flushed the blocks \<open>bs\<close>, all non-empty, and nothing else.
\<close>

definition flushed :: "Writer \<Rightarrow> Block list \<Rightarrow> bool" where
  "flushed w bs =
     (file_w w = [] \<and> bufWriter w = concat (map frame bs) \<and>
      entries_ib (index w) = index_of 0 bs \<and>
      offset w = of_nat (length (concat (map frame bs))) \<and>
      list_all (\<lambda>b. entries b \<noteq> []) bs)"

definition mk_Entry :: "bytes \<times> bytes \<Rightarrow> Entry" where
  "mk_Entry kv = \<lparr>Key = fst kv, Value = snd kv\<rparr>"

text \<open>The file \<open>Close\<close> leaves: the flushed blocks, the index block, the footer.\<close>

definition index_frame :: "IBlock \<Rightarrow> bytes" where
  "index_frame ib =
     put_BlockMetadata \<lparr>Type = IndexBlock, CRC = calculateCRC (IBlock_Encode ib),
        Size_md = of_nat (length (IBlock_Encode ib)),
        KeyCount_md = of_nat (length (entries_ib ib)), Compressed = False\<rparr>
     @ IBlock_Encode ib"

definition footer_of :: "64 word \<Rightarrow> nat \<Rightarrow> IBlock \<Rightarrow> Footer" where
  "footer_of now off ib =
     \<lparr>IndexHandle = \<lparr>Offset = of_nat off, Size = of_nat (length (IBlock_Encode ib))\<rparr>,
      FilterHandle = \<lparr>Offset = 0, Size = 0\<rparr>,
      MagicNumber_f = MagicNumber, Version = CurrentVersion, CreatedAt = now,
      CompressionType_f = NoCompression\<rparr>"

section \<open>Blocks\<close>

lemma add_entries_Nil: "add_entries b [] = b"
  by (simp add: add_entries_def)

lemma add_entries_snoc: "add_entries b (kvs @ [(k, v)]) = AddEntry (add_entries b kvs) k v"
  by (simp add: add_entries_def)

lemma entries_add_entries:
  "entries (add_entries b kvs) = entries b @ map (\<lambda>(k, v). \<lparr>Key = k, Value = v\<rparr>) kvs"
  by (induction kvs rule: rev_induct) (auto simp: add_entries_Nil add_entries_snoc AddEntry_def)

lemma size_add_entries:
  "size_b (add_entries b kvs) = size_b b + of_nat (\<Sum>(k, v)\<leftarrow>kvs. length k + length v)"
  by (induction kvs rule: rev_induct)
     (auto simp: add_entries_Nil add_entries_snoc AddEntry_def)

text \<open>
  Claim C9. A block built from \<open>NewBlock\<close> by any sequence of \<open>AddEntry\<close> calls holds
  exactly the pairs given, in call order and unchecked (no ordering, duplicate or length
  test); its \<open>size\<close> is the sum of the key and value lengths modulo \<open>2^32\<close>; \<open>KeyCount\<close>
  is the number of calls; \<open>IsEmpty\<close> holds exactly when there was no call.
\<close>

theorem Block_invariant:
  "entries (add_entries NewBlock kvs) = map (\<lambda>(k, v). \<lparr>Key = k, Value = v\<rparr>) kvs \<and>
   unat (size_b (add_entries NewBlock kvs)) = (\<Sum>(k, v)\<leftarrow>kvs. length k + length v) mod 2 ^ 32 \<and>
   KeyCount (add_entries NewBlock kvs) = length kvs \<and>
   IsEmpty (add_entries NewBlock kvs) = (kvs = [])"
  by (simp add: entries_add_entries size_add_entries NewBlock_def KeyCount_def IsEmpty_def
      unat_of_nat)

lemma IsFull_iff: "IsFull b = (4096 \<le> unat (size_b b))"
  by (simp add: IsFull_def BlockSize_def word_le_nat_alt)

lemma flushBlock_nonempty:
 "\<not> IsEmpty (block w) \<Longrightarrow> flushBlock w =
    w\<lparr>index := IBlock_AddEntry (index w) (Key (hd (entries (block w))))
                  \<lparr>Offset = offset w, Size = ucast (size_b (block w))\<rparr>,
      bufWriter := bufWriter w
         @ put_BlockMetadata \<lparr>Type = DataBlock, CRC = ChecksumIEEE (Encode (block w)),
              Size_md = of_nat (length (Encode (block w))),
              KeyCount_md = of_nat (KeyCount (block w)), Compressed = False\<rparr>
         @ Encode (block w),
      offset := offset w + (of_nat (length (Encode (block w))) + of_nat binary_Size_BlockMetadata),
      block := NewBlock\<rparr>"
  by (simp add: flushBlock_def Let_def)

section \<open>The index search\<close>

lemma bytes_Compare_le0: "(bytes_Compare a b \<le> 0) = (a \<le> b)"
  by (auto simp: bytes_Compare_def)

lemma bytes_Compare_ge0: "(bytes_Compare a b \<ge> 0) = (b \<le> a)"
  by (auto simp: bytes_Compare_def)

lemma bytes_Compare_eq0: "(bytes_Compare a b = 0) = (a = b)"
  by (auto simp: bytes_Compare_def)

lemma bytes_Compare_lt0: "(bytes_Compare a b < 0) = (a < b)"
  by (auto simp: bytes_Compare_def)

lemma at_index_nat: "i < length xs \<Longrightarrow> at_index xs (int i) = Inr (xs ! i)"
  by (simp add: at_index_def)

lemma findBlockHandle_loop_first_greater:
  "sorted (map Key_ie es) \<Longrightarrow> left \<le> right \<Longrightarrow> right < length es \<Longrightarrow>
   (\<forall>i<left. Key_ie (es ! i) \<le> key) \<Longrightarrow> key < Key_ie (es ! right) \<Longrightarrow>
   \<exists>l. findBlockHandle_loop es key left right = Inr l \<and> l \<le> right \<and>
       (\<forall>i<l. Key_ie (es ! i) \<le> key) \<and> key < Key_ie (es ! l)"
proof (induction es key left right rule: findBlockHandle_loop.induct)
  case (1 es key left right)
  show ?case
  proof (cases "left < right")
    case False
    with "1.prems" have "left = right" by simp
    with "1.prems" show ?thesis by (subst findBlockHandle_loop.simps) simp
  next
    case True
    define mid where "mid = (left + right) div 2"
    from True have mid: "left \<le> mid" "mid < right" by (simp_all add: mid_def)
    with "1.prems" have at: "at_index es (int mid) = Inr (es ! mid)"
      by (simp add: at_index_nat)
    show ?thesis
    proof (cases "Key_ie (es ! mid) \<le> key")
      case le: True
      have below: "\<forall>i<mid + 1. Key_ie (es ! i) \<le> key"
      proof (intro allI impI)
        fix i assume "i < mid + 1"
        then have "i \<le> mid" by simp
        moreover have "mid < length es" using mid "1.prems" by simp
        ultimately have "Key_ie (es ! i) \<le> Key_ie (es ! mid)"
          using "1.prems"(1) by (simp add: sorted_iff_nth_mono)
        with le show "Key_ie (es ! i) \<le> key" by simp
      qed
      have "\<exists>l. findBlockHandle_loop es key (mid + 1) right = Inr l \<and> l \<le> right \<and>
          (\<forall>i<l. Key_ie (es ! i) \<le> key) \<and> key < Key_ie (es ! l)"
        using "1.IH"(1) [OF True mid_def at _ "1.prems"(1) _ "1.prems"(3) below "1.prems"(5)]
          le mid by (simp add: bytes_Compare_le0)
      then show ?thesis
        using True at le by (subst findBlockHandle_loop.simps) (simp add: mid_def [symmetric] bytes_Compare_le0 Let_def)
    next
      case gt: False
      then have k: "key < Key_ie (es ! mid)" by simp
      have "\<exists>l. findBlockHandle_loop es key left mid = Inr l \<and> l \<le> mid \<and>
          (\<forall>i<l. Key_ie (es ! i) \<le> key) \<and> key < Key_ie (es ! l)"
        using "1.IH"(2) [OF True mid_def at _ "1.prems"(1) mid(1) _ "1.prems"(4) k]
          gt mid "1.prems" by (simp add: bytes_Compare_le0)
      then show ?thesis
        using True at gt mid by (subst findBlockHandle_loop.simps) (auto simp add: mid_def [symmetric] bytes_Compare_le0 Let_def)
    qed
  qed
qed

lemma findBlockHandle_entry:
  assumes ne: "es \<noteq> []" and srt: "sorted (map Key_ie es)"
  shows "\<exists>i<length es.
      findBlockHandle \<lparr>entries_ib = es\<rparr> key = Inr (BlockHandle_ie (es ! i)) \<and>
      (if Key_ie (last es) \<le> key then i = length es - 1
       else \<exists>f<length es. key < Key_ie (es ! f) \<and> (\<forall>j<f. Key_ie (es ! j) \<le> key) \<and> i = f - 1) \<and>
      ((\<exists>j<length es. Key_ie (es ! j) \<le> key) \<longrightarrow>
         Key_ie (es ! i) \<le> key \<and> (\<forall>j<length es. Key_ie (es ! j) \<le> key \<longrightarrow> j \<le> i)) \<and>
      ((\<forall>j<length es. key < Key_ie (es ! j)) \<longrightarrow> i = 0)"
proof -
  define m where "m = length es - 1"
  from ne have len: "length es = Suc m" by (cases es) (simp_all add: m_def)
  have last: "last es = es ! m" using ne by (simp add: last_conv_nth m_def)
  have right: "int (length es) - 1 = int m" by (simp add: len)
  have at_last: "at_index es (int m) = Inr (es ! m)"
    by (simp add: at_index_nat len)
  have mono: "\<And>i j. i \<le> j \<Longrightarrow> j \<le> m \<Longrightarrow> Key_ie (es ! i) \<le> Key_ie (es ! j)"
    using srt by (simp add: sorted_iff_nth_mono len)
  show ?thesis
  proof (cases "Key_ie (last es) \<le> key")
    case True
    have res: "findBlockHandle \<lparr>entries_ib = es\<rparr> key = Inr (BlockHandle_ie (es ! m))"
      using True by (simp add: findBlockHandle_def Let_def right at_last last bytes_Compare_ge0)
    have all: "\<forall>j\<le>m. Key_ie (es ! j) \<le> key"
    proof (intro allI impI)
      fix j assume "j \<le> m"
      then have "Key_ie (es ! j) \<le> Key_ie (es ! m)" using mono [of j m] by simp
      with True last show "Key_ie (es ! j) \<le> key" by simp
    qed
    have "\<not> (\<forall>j<length es. key < Key_ie (es ! j))"
      using all by (auto simp: len not_less intro!: exI [of _ 0])
    then show ?thesis
      using res True all by (intro exI [of _ m]) (auto simp: len)
  next
    case False
    then have lt: "key < Key_ie (es ! m)" using last by simp
    obtain f where loop: "findBlockHandle_loop es key 0 m = Inr f"
      and f: "f \<le> m" "\<forall>i<f. Key_ie (es ! i) \<le> key" "key < Key_ie (es ! f)"
      using findBlockHandle_loop_first_greater [OF srt, of 0 m key] lt
      by (auto simp: len)
    define i where "i = f - 1"
    have i: "i \<le> m" using f by (simp add: i_def)
    have at_i: "at_index es (int (if 0 < f then f - 1 else f)) = Inr (es ! i)"
      using i f by (cases "0 < f") (auto simp: at_index_def len i_def nat_diff_distrib)
    have res: "findBlockHandle \<lparr>entries_ib = es\<rparr> key = Inr (BlockHandle_ie (es ! i))"
      using False lt
      by (simp add: findBlockHandle_def Let_def right at_last last bytes_Compare_ge0 loop at_i)
    have above: "\<forall>j\<le>m. f \<le> j \<longrightarrow> key < Key_ie (es ! j)"
    proof (intro allI impI)
      fix j assume "j \<le> m" "f \<le> j"
      then have "Key_ie (es ! f) \<le> Key_ie (es ! j)" using mono [of f j] by simp
      with f(3) show "key < Key_ie (es ! j)" by simp
    qed
    have below: "\<And>j. j < length es \<Longrightarrow> Key_ie (es ! j) \<le> key \<Longrightarrow> j < f"
    proof (rule ccontr)
      fix j assume j: "j < length es" "Key_ie (es ! j) \<le> key" "\<not> j < f"
      then have "key < Key_ie (es ! j)" using above by (simp add: len)
      with j(2) show False by simp
    qed
    have fn: "f < length es" using f by (simp add: len)
    have p1: "\<exists>f<length es. key < Key_ie (es ! f) \<and> (\<forall>j<f. Key_ie (es ! j) \<le> key) \<and> i = f - 1"
      using fn f i_def by blast
    have p2: "(\<exists>j<length es. Key_ie (es ! j) \<le> key) \<longrightarrow>
         Key_ie (es ! i) \<le> key \<and> (\<forall>j<length es. Key_ie (es ! j) \<le> key \<longrightarrow> j \<le> i)"
    proof
      assume "\<exists>j<length es. Key_ie (es ! j) \<le> key"
      then obtain j where "j < length es" "Key_ie (es ! j) \<le> key" by auto
      then have "j < f" by (rule below)
      then have "Key_ie (es ! i) \<le> key" using f(2) by (simp add: i_def)
      moreover have "\<forall>j<length es. Key_ie (es ! j) \<le> key \<longrightarrow> j \<le> i"
      proof (intro allI impI)
        fix j' assume "j' < length es" "Key_ie (es ! j') \<le> key"
        then have "j' < f" by (rule below)
        then show "j' \<le> i" by (simp add: i_def)
      qed
      ultimately show "Key_ie (es ! i) \<le> key \<and> (\<forall>j<length es. Key_ie (es ! j) \<le> key \<longrightarrow> j \<le> i)"
        by simp
    qed
    have p3: "(\<forall>j<length es. key < Key_ie (es ! j)) \<longrightarrow> i = 0"
    proof
      assume a: "\<forall>j<length es. key < Key_ie (es ! j)"
      have "f = 0"
      proof (rule ccontr)
        assume "f \<noteq> 0"
        then have "Key_ie (es ! 0) \<le> key" using f(2) by simp
        moreover have "key < Key_ie (es ! 0)" using a by (simp add: len)
        ultimately show False by simp
      qed
      then show "i = 0" by (simp add: i_def)
    qed
    have "i < length es" using i by (simp add: len)
    then show ?thesis
      using res False p1 p2 p3 by (intro exI [of _ i]) simp
  qed
qed

text \<open>
  Claim C3. On a non-empty index sorted by key, \<open>findBlockHandle\<close> returns the handle of
  the entry \<open>i\<close> where: \<open>i\<close> is the last entry when the key is at least the last entry's
  key; otherwise \<open>i = f - 1\<close> (0 when \<open>f = 0\<close>) for the first entry \<open>f\<close> whose key is
  greater than the search key. So \<open>i\<close> is the last entry whose key is at most the search
  key when there is one, and entry 0 when every index key is greater.
\<close>

theorem findBlockHandle_selects:
  assumes ne: "es \<noteq> []" and srt: "sorted (map Key_ie es)"
  shows "\<exists>i<length es.
      findBlockHandle \<lparr>entries_ib = es\<rparr> key = Inr (BlockHandle_ie (es ! i)) \<and>
      (if Key_ie (last es) \<le> key then i = length es - 1
       else \<exists>f<length es. key < Key_ie (es ! f) \<and> (\<forall>j<f. Key_ie (es ! j) \<le> key) \<and> i = f - 1) \<and>
      ((\<exists>j<length es. Key_ie (es ! j) \<le> key) \<longrightarrow>
         Key_ie (es ! i) \<le> key \<and> (\<forall>j<length es. Key_ie (es ! j) \<le> key \<longrightarrow> j \<le> i)) \<and>
      ((\<forall>j<length es. key < Key_ie (es ! j)) \<longrightarrow> i = 0)"
  using assms by (rule findBlockHandle_entry)

theorem findBlockHandle_selects_witness:
  "es3 \<noteq> [] \<and> sorted (map Key_ie es3) \<and>
   findBlockHandle \<lparr>entries_ib = es3\<rparr> [2] = Inr \<lparr>Offset = 0, Size = 10\<rparr> \<and>
   findBlockHandle \<lparr>entries_ib = es3\<rparr> [0] = Inr \<lparr>Offset = 0, Size = 10\<rparr> \<and>
   findBlockHandle \<lparr>entries_ib = es3\<rparr> [3] = Inr \<lparr>Offset = 100, Size = 10\<rparr> \<and>
   findBlockHandle \<lparr>entries_ib = es3\<rparr> [9] = Inr \<lparr>Offset = 200, Size = 10\<rparr>"
proof -
  have a: "es3 \<noteq> []" by (simp add: es3_def)
  have b: "sorted (map Key_ie es3)" by (simp add: es3_def)
  have nth: "es3 ! 0 = \<lparr>Key_ie = [1], BlockHandle_ie = \<lparr>Offset = 0, Size = 10\<rparr>\<rparr>"
    "es3 ! Suc 0 = \<lparr>Key_ie = [3], BlockHandle_ie = \<lparr>Offset = 100, Size = 10\<rparr>\<rparr>"
    "es3 ! Suc (Suc 0) = \<lparr>Key_ie = [5], BlockHandle_ie = \<lparr>Offset = 200, Size = 10\<rparr>\<rparr>"
    "length es3 = Suc (Suc (Suc 0))" "last es3 = \<lparr>Key_ie = [5], BlockHandle_ie = \<lparr>Offset = 200, Size = 10\<rparr>\<rparr>"
    by (simp_all add: es3_def)
  have k2: "findBlockHandle \<lparr>entries_ib = es3\<rparr> [2] = Inr \<lparr>Offset = 0, Size = 10\<rparr>"
    using findBlockHandle_selects [OF a b, of "[2]"] by (auto simp: nth less_Suc_eq)
  have k0: "findBlockHandle \<lparr>entries_ib = es3\<rparr> [0] = Inr \<lparr>Offset = 0, Size = 10\<rparr>"
    using findBlockHandle_selects [OF a b, of "[0]"] by (auto simp: nth less_Suc_eq)
  have k3: "findBlockHandle \<lparr>entries_ib = es3\<rparr> [3] = Inr \<lparr>Offset = 100, Size = 10\<rparr>"
    using findBlockHandle_selects [OF a b, of "[3]"] by (auto simp: nth less_Suc_eq)
  have k9: "findBlockHandle \<lparr>entries_ib = es3\<rparr> [9] = Inr \<lparr>Offset = 200, Size = 10\<rparr>"
    using findBlockHandle_selects [OF a b, of "[9]"] by (auto simp: nth less_Suc_eq)
  from a b k2 k0 k3 k9 show ?thesis by simp
qed



section \<open>Evaluating the writer and the reader on the sample file\<close>

lemma put_le4: "put_le 4 v = [of_nat (v mod 256), of_nat (v div 256 mod 256), of_nat (v div 256 div 256 mod 256), of_nat (v div 256 div 256 div 256 mod 256)]"
proof -
  have "(4::nat) = Suc (Suc (Suc (Suc 0)))" by simp
  then show ?thesis by (simp only: put_le.simps)
qed

lemma put_le8: "put_le 8 v = [of_nat (v mod 256), of_nat (v div 256 mod 256), of_nat (v div 256 div 256 mod 256), of_nat (v div 256 div 256 div 256 mod 256),
   of_nat (v div 256 div 256 div 256 div 256 mod 256), of_nat (v div 256 div 256 div 256 div 256 div 256 mod 256), of_nat (v div 256 div 256 div 256 div 256 div 256 div 256 mod 256), of_nat (v div 256 div 256 div 256 div 256 div 256 div 256 div 256 mod 256)]"
proof -
  have "(8::nat) = Suc (Suc (Suc (Suc (Suc (Suc (Suc (Suc 0)))))))" by simp
  then show ?thesis by (simp only: put_le.simps)
qed

lemma crc_byte_unfold:
  "crc_byte c b = crc_bit (crc_bit (crc_bit (crc_bit (crc_bit (crc_bit (crc_bit (crc_bit (c XOR ucast b))))))))"
  by (simp add: crc_byte_def numeral_eq_Suc)

lemma replicate_11: "replicate 11 x = [x, x, x, x, x, x, x, x, x, x, x]"
  by (simp add: numeral_eq_Suc)

lemmas eval_put = put_u32_def put_u64_def put_le4 put_le8
lemmas eval_crc = calculateCRC_def ChecksumIEEE_def crc_byte_unfold crc_bit_def
lemmas eval_make = makeslice_def sizeof_Entry_def sizeof_IndexEntry_def


lemma crc_data_ax: "ChecksumIEEE data_ax = 56688590"
  by (simp add: data_ax_def eval_crc)

lemma crc_index_ax: "ChecksumIEEE index_ax = 1710786095"
  by (simp add: index_ax_def eval_crc)

lemma write_ax: "write_all [([97], [120])] =
    NewWriter\<lparr>block := \<lparr>entries = [\<lparr>Key = [97], Value = [120]\<rparr>], size_b = 2\<rparr>\<rparr>"
  by (simp add: write_all_def Write_def IsFull_iff NewWriter_def NewBlock_def AddEntry_def)

lemma Encode_ax: "Encode \<lparr>entries = [\<lparr>Key = [97], Value = [120]\<rparr>], size_b = 2\<rparr> = data_ax"
  by (simp add: Encode_def put_Entry_def eval_put data_ax_def)

lemma IBlock_Encode_ax:
  "IBlock_Encode \<lparr>entries_ib = [\<lparr>Key_ie = [97], BlockHandle_ie = \<lparr>Offset = 0, Size = 2\<rparr>\<rparr>]\<rparr> = index_ax"
  by (simp add: IBlock_Encode_def put_IndexEntry_def eval_put index_ax_def)

lemma length_ax: "length data_ax = 14" "length index_ax = 25" "length footer_ax = 64"
  by (simp_all add: data_ax_def index_ax_def footer_ax_def)

lemma Close_ax: "Close 7 (write_all [([97], [120])]) = Inr file_ax"
  by (simp add: write_ax Close_def flushBlock_def IsEmpty_def NewWriter_def NewBlock_def NewIBlock_def
       IBlock_AddEntry_def KeyCount_def Encode_ax IBlock_Encode_ax length_ax crc_data_ax crc_index_ax
       put_BlockMetadata_def Footer_Encode_def put_BlockHandle_def binary_Size_BlockMetadata_def
       FooterSize_def MagicNumber_def CurrentVersion_def NoCompression_def DataBlock_def IndexBlock_def
       eval_put Let_def calculateCRC_def replicate_11 file_ax_def footer_ax_def)

lemma file_ax_length: "length file_ax = 131"
  by (simp add: file_ax_def length_ax)

lemma footer_read_ax: "drop 67 file_ax = footer_ax"
  by (simp add: file_ax_def length_ax data_ax_def index_ax_def)

lemma DecodeFooter_ax: "DecodeFooter footer_ax =
   Inr \<lparr>IndexHandle = \<lparr>Offset = 28, Size = 25\<rparr>, FilterHandle = \<lparr>Offset = 0, Size = 0\<rparr>,
        MagicNumber_f = MagicNumber, Version = 1, CreatedAt = 7, CompressionType_f = 0\<rparr>"
  by (simp add: DecodeFooter_def io_ReadFull_def footer_ax_def get_BlockHandle_def get_u64_def
      get_u32_def MagicNumber_def)

lemma index_md_ax: "take 14 (drop 28 file_ax) = [1, 47, 134, 248, 101, 25, 0, 0, 0, 1, 0, 0, 0, 0]"
  "take 25 (drop 42 file_ax) = index_ax"
  by (simp_all add: file_ax_def length_ax data_ax_def index_ax_def footer_ax_def)

lemma get_md_index_ax: "get_BlockMetadata [1, 47, 134, 248, 101, 25, 0, 0, 0, 1, 0, 0, 0, 0] =
   \<lparr>Type = 1, CRC = 1710786095, Size_md = 25, KeyCount_md = 1, Compressed = False\<rparr>"
  by (simp add: get_BlockMetadata_def get_u32_def)

lemma decode_index_ax: "40 \<le> mem \<Longrightarrow> decodeIndexBlock mem r index_ax =
   (None, r\<lparr>indexBlock := Some \<lparr>entries_ib = [\<lparr>Key_ie = [97], BlockHandle_ie = \<lparr>Offset = 0, Size = 2\<rparr>\<rparr>]\<rparr>\<rparr>)"
  by (simp add: decodeIndexBlock_def index_ax_def io_ReadFull_def Reader_Read_def get_u32_def get_u64_def
      eval_make)

lemma NewReader_ax:
  "40 \<le> mem \<Longrightarrow> NewReader mem fs_ax ''ax.sst'' = (Inr reader_ax, Some (file_r reader_ax))"
  by (simp add: eval_make NewReader_def fs_ax_def os_OpenFile_def loadIndexBlock_def File_Stat_Size_def
      File_Seek_def File_ReadFull_def io_ReadFull_def file_ax_length FooterSize_def footer_read_ax
      length_ax DecodeFooter_ax binary_Size_BlockMetadata_def index_md_ax get_md_index_ax IndexBlock_def
      calculateCRC_def crc_index_ax decode_index_ax reader_ax_def)

lemma find_ax: "findBlockHandle \<lparr>entries_ib = [\<lparr>Key_ie = [97], BlockHandle_ie = \<lparr>Offset = 0, Size = s\<rparr>\<rparr>]\<rparr> key
    = Inr \<lparr>Offset = 0, Size = s\<rparr>"
  by (simp add: findBlockHandle_def at_index_def Let_def findBlockHandle_loop.simps)

lemma data_md_ax: "take 14 file_ax = [0, 206, 255, 96, 3, 14, 0, 0, 0, 1, 0, 0, 0, 0]"
  "take 14 (drop 14 file_ax) = data_ax"
  by (simp_all add: file_ax_def length_ax)

lemma get_md_data_ax: "get_BlockMetadata [0, 206, 255, 96, 3, 14, 0, 0, 0, 1, 0, 0, 0, 0] =
   \<lparr>Type = 0, CRC = 56688590, Size_md = 14, KeyCount_md = 1, Compressed = False\<rparr>"
  by (simp add: get_BlockMetadata_def get_u32_def)

lemma decode_data_ax:
  "48 \<le> mem \<Longrightarrow>
   readBlock_decode mem data_ax = Inr \<lparr>entries = [\<lparr>Key = [97], Value = [120]\<rparr>], size_b = 0\<rparr>"
  by (simp add: eval_make readBlock_decode_def data_ax_def io_ReadFull_def Reader_Read_def get_u32_def)

lemma search_ax:
  "searchInBlock \<lparr>entries = [\<lparr>Key = [97], Value = [120]\<rparr>], size_b = 0\<rparr> [97] = Inr [120]"
  "searchInBlock \<lparr>entries = [\<lparr>Key = [97], Value = [120]\<rparr>], size_b = 0\<rparr> [98] = Inl ErrKeyNotFound"
  by (simp_all add: searchInBlock_def searchInBlock_loop.simps go_div_def at_index_def
      bytes_Compare_def Let_def)

lemma readBlock_ax:
  "48 \<le> mem \<Longrightarrow>
   readBlock mem (file_r reader_ax) \<lparr>Offset = 0, Size = s\<rparr> =
     (Inr \<lparr>entries = [\<lparr>Key = [97], Value = [120]\<rparr>], size_b = 0\<rparr>,
      \<lparr>contents = file_ax, pos = 28, closed = False\<rparr>)"
  by (simp add: eval_make readBlock_def reader_ax_def File_Seek_def File_ReadFull_def io_ReadFull_def
      file_ax_length binary_Size_BlockMetadata_def data_md_ax get_md_data_ax length_ax
      calculateCRC_def crc_data_ax decode_data_ax)

lemma Get_ax:
  "48 \<le> mem \<Longrightarrow> fst (Get mem reader_ax [97]) = Inr [120]"
  "48 \<le> mem \<Longrightarrow> fst (Get mem reader_ax [98]) = Inl ErrKeyNotFound"
  by (simp_all add: Get_def find_ax readBlock_ax search_ax reader_ax_def [THEN arg_cong [of _ _ indexBlock]])


section \<open>The errors of Get\<close>

lemma io_ReadFull_Inl: "io_ReadFull n buf = Inl e \<Longrightarrow> e = EOF \<or> e = ErrUnexpectedEOF"
  by (auto simp: io_ReadFull_def split: if_splits)

lemma Reader_Read_Inl: "Reader_Read n buf = Inl e \<Longrightarrow> e = EOF"
  by (auto simp: Reader_Read_def split: if_splits)

lemma File_Seek_Inl: "File_Seek f off = Inl e \<Longrightarrow> e = ErrClosed \<or> e = ErrInvalidSeek"
  by (auto simp: File_Seek_def split: if_splits)

lemma File_ReadFull_Inl:
  "File_ReadFull f n = (Inl e, f') \<Longrightarrow> e = ErrClosed \<or> e = EOF \<or> e = ErrUnexpectedEOF"
  by (auto simp: File_ReadFull_def split: if_splits sum.splits dest: io_ReadFull_Inl)

lemma readBlock_loop_Inl:
  "readBlock_loop mem n buf acc = Inl e \<Longrightarrow>
   e = EOF \<or> e = ErrUnexpectedEOF \<or> e = FatalOutOfMemory"
proof (induction n arbitrary: buf acc)
  case 0
  then show ?case by simp
next
  case (Suc n)
  then show ?case
    by (auto split: sum.splits prod.splits if_splits dest: io_ReadFull_Inl Reader_Read_Inl)
qed

lemma readBlock_decode_Inl:
  "readBlock_decode mem data = Inl e \<Longrightarrow>
   e = EOF \<or> e = ErrUnexpectedEOF \<or> e = FatalOutOfMemory"
  by (auto simp: readBlock_decode_def split: sum.splits prod.splits if_splits
      dest: io_ReadFull_Inl readBlock_loop_Inl)

lemma at_index_Inl: "at_index xs i = Inl e \<Longrightarrow> e = PanicIndexOutOfRange"
  by (auto simp: at_index_def split: if_splits)

lemma findBlockHandle_loop_Inl:
  "findBlockHandle_loop es key left right = Inl e \<Longrightarrow> e = PanicIndexOutOfRange"
proof (induction es key left right rule: findBlockHandle_loop.induct)
  case (1 es key left right)
  from "1.prems" show ?case
    by (subst (asm) findBlockHandle_loop.simps)
       (auto simp: Let_def split: if_splits sum.splits dest: at_index_Inl "1.IH")
qed

lemma findBlockHandle_Inl: "findBlockHandle ib key = Inl e \<Longrightarrow> e = PanicIndexOutOfRange"
  by (auto simp: findBlockHandle_def Let_def split: if_splits sum.splits
      dest: at_index_Inl findBlockHandle_loop_Inl)

text \<open>What \<open>readBlock\<close> returns, step by step.\<close>

lemma readBlock_Inr:
  "readBlock mem f h = (Inr b, f') \<Longrightarrow>
   \<exists>f1 mb f2 data.
     File_Seek f (sint (Offset h)) = Inr f1 \<and>
     File_ReadFull f1 binary_Size_BlockMetadata = (Inr mb, f2) \<and>
     makeslice mem 1 (unat (Size_md (get_BlockMetadata mb))) \<and>
     File_ReadFull f2 (unat (Size_md (get_BlockMetadata mb))) = (Inr data, f') \<and>
     calculateCRC data = CRC (get_BlockMetadata mb) \<and>
     readBlock_decode mem data = Inr b"
  by (auto simp: readBlock_def Let_def split: sum.splits prod.splits if_splits)

lemma readBlock_Inl_not_KeyNotFound: "readBlock mem f h = (Inl e, f') \<Longrightarrow> e \<noteq> ErrKeyNotFound"
  by (auto simp: readBlock_def Let_def split: sum.splits prod.splits if_splits
      dest: File_Seek_Inl File_ReadFull_Inl readBlock_decode_Inl)

lemma readBlock_CRC_mismatch:
  "File_Seek f (sint (Offset h)) = Inr f1 \<Longrightarrow>
   File_ReadFull f1 binary_Size_BlockMetadata = (Inr mb, f2) \<Longrightarrow>
   makeslice mem 1 (unat (Size_md (get_BlockMetadata mb))) \<Longrightarrow>
   File_ReadFull f2 (unat (Size_md (get_BlockMetadata mb))) = (Inr data, f3) \<Longrightarrow>
   calculateCRC data \<noteq> CRC (get_BlockMetadata mb) \<Longrightarrow>
   readBlock mem f h = (Inl ErrBlockCRCMismatch, f3)"
  by (simp add: readBlock_def Let_def)

text \<open>
  Claim C5. When \<open>Get\<close> has selected a block, read its metadata, been granted the buffer
  for the payload and read the payload, and the CRC-32 of the payload read is not the
  stored one, \<open>Get\<close> returns the block CRC mismatch error: no value and not key-not-found.
  And when \<open>Get\<close> returns key-not-found, a block was selected and read, its CRC verified,
  the payload decoded, and the search of the block ended without a match.
\<close>

theorem Get_CRC_mismatch_is_integrity_error:
  "(indexBlock r = Some ib \<and> findBlockHandle ib key = Inr h \<and>
    File_Seek (file_r r) (sint (Offset h)) = Inr f1 \<and>
    File_ReadFull f1 binary_Size_BlockMetadata = (Inr mb, f2) \<and>
    makeslice mem 1 (unat (Size_md (get_BlockMetadata mb))) \<and>
    File_ReadFull f2 (unat (Size_md (get_BlockMetadata mb))) = (Inr data, f3) \<and>
    ChecksumIEEE data \<noteq> CRC (get_BlockMetadata mb)
    \<longrightarrow> fst (Get mem r key) = Inl ErrBlockCRCMismatch) \<and>
   (fst (Get mem r key) = Inl ErrKeyNotFound \<longrightarrow>
     (\<exists>ib h f1 mb f2 data f3 b.
        indexBlock r = Some ib \<and> findBlockHandle ib key = Inr h \<and>
        File_Seek (file_r r) (sint (Offset h)) = Inr f1 \<and>
        File_ReadFull f1 binary_Size_BlockMetadata = (Inr mb, f2) \<and>
        makeslice mem 1 (unat (Size_md (get_BlockMetadata mb))) \<and>
        File_ReadFull f2 (unat (Size_md (get_BlockMetadata mb))) = (Inr data, f3) \<and>
        ChecksumIEEE data = CRC (get_BlockMetadata mb) \<and>
        readBlock_decode mem data = Inr b \<and>
        searchInBlock b key = Inl ErrKeyNotFound))"
proof (intro conjI impI)
  assume a: "indexBlock r = Some ib \<and> findBlockHandle ib key = Inr h \<and>
    File_Seek (file_r r) (sint (Offset h)) = Inr f1 \<and>
    File_ReadFull f1 binary_Size_BlockMetadata = (Inr mb, f2) \<and>
    makeslice mem 1 (unat (Size_md (get_BlockMetadata mb))) \<and>
    File_ReadFull f2 (unat (Size_md (get_BlockMetadata mb))) = (Inr data, f3) \<and>
    ChecksumIEEE data \<noteq> CRC (get_BlockMetadata mb)"
  then have "readBlock mem (file_r r) h = (Inl ErrBlockCRCMismatch, f3)"
    by (intro readBlock_CRC_mismatch [of _ _ f1 mb f2 _ data]) (simp_all add: calculateCRC_def)
  with a show "fst (Get mem r key) = Inl ErrBlockCRCMismatch"
    by (simp add: Get_def)
next
  assume g: "fst (Get mem r key) = Inl ErrKeyNotFound"
  then obtain ib where ib: "indexBlock r = Some ib"
    by (cases "indexBlock r") (simp_all add: Get_def)
  from g ib obtain h where h: "findBlockHandle ib key = Inr h"
    by (cases "findBlockHandle ib key") (auto simp: Get_def dest: findBlockHandle_Inl)
  obtain res f' where rb: "readBlock mem (file_r r) h = (res, f')"
    by (cases "readBlock mem (file_r r) h")
  from g ib h rb obtain b where b: "res = Inr b" and s: "searchInBlock b key = Inl ErrKeyNotFound"
    by (cases res) (auto simp: Get_def dest: readBlock_Inl_not_KeyNotFound)
  from readBlock_Inr [OF rb [unfolded b]] ib h s
  show "\<exists>ib h f1 mb f2 data f3 b.
        indexBlock r = Some ib \<and> findBlockHandle ib key = Inr h \<and>
        File_Seek (file_r r) (sint (Offset h)) = Inr f1 \<and>
        File_ReadFull f1 binary_Size_BlockMetadata = (Inr mb, f2) \<and>
        makeslice mem 1 (unat (Size_md (get_BlockMetadata mb))) \<and>
        File_ReadFull f2 (unat (Size_md (get_BlockMetadata mb))) = (Inr data, f3) \<and>
        ChecksumIEEE data = CRC (get_BlockMetadata mb) \<and>
        readBlock_decode mem data = Inr b \<and>
        searchInBlock b key = Inl ErrKeyNotFound"
    by (auto simp: calculateCRC_def)
qed

lemma file_bad: "file_ax[27 := 121] = [0, 206, 255, 96, 3, 14, 0, 0, 0, 1, 0, 0, 0, 0]
     @ [1, 0, 0, 0, 1, 0, 0, 0, 97, 1, 0, 0, 0, 121]
     @ [1, 47, 134, 248, 101, 25, 0, 0, 0, 1, 0, 0, 0, 0] @ index_ax @ footer_ax"
  by (simp add: file_ax_def data_ax_def)

lemma crc_bad: "ChecksumIEEE [1, 0, 0, 0, 1, 0, 0, 0, 97, 1, 0, 0, 0, 121] \<noteq> 56688590"
  by (simp add: eval_crc)

theorem Get_CRC_mismatch_is_integrity_error_witness:
  "fst (Get 4096 reader_bad [97]) = Inl ErrBlockCRCMismatch \<and>
   fst (Get 4096 reader_ax [98]) = Inl ErrKeyNotFound \<and>
   (\<exists>h f1 mb f2 data f3 b.
      findBlockHandle \<lparr>entries_ib = [\<lparr>Key_ie = [97], BlockHandle_ie = \<lparr>Offset = 0, Size = 2\<rparr>\<rparr>]\<rparr> [98]
        = Inr h \<and>
      File_Seek (file_r reader_ax) (sint (Offset h)) = Inr f1 \<and>
      File_ReadFull f1 binary_Size_BlockMetadata = (Inr mb, f2) \<and>
      makeslice 4096 1 (unat (Size_md (get_BlockMetadata mb))) \<and>
      File_ReadFull f2 (unat (Size_md (get_BlockMetadata mb))) = (Inr data, f3) \<and>
      ChecksumIEEE data = CRC (get_BlockMetadata mb) \<and>
      readBlock_decode 4096 data = Inr b \<and>
      searchInBlock b [98] = Inl ErrKeyNotFound)"
proof -
  let ?ib = "\<lparr>entries_ib = [\<lparr>Key_ie = [97], BlockHandle_ie = \<lparr>Offset = 0, Size = 2\<rparr>\<rparr>]\<rparr>"
  let ?f = "\<lparr>contents = file_ax[27 := 121], pos = 67, closed = False\<rparr>"
  let ?mb = "[0, 206, 255, 96, 3, 14, 0, 0, 0, 1, 0, 0, 0, 0] :: bytes"
  have ib: "indexBlock reader_bad = Some ?ib" "indexBlock reader_ax = Some ?ib"
    by (simp_all add: reader_bad_def reader_ax_def)
  have f: "file_r reader_bad = ?f"
    by (simp add: reader_bad_def)
  have s: "File_Seek ?f (sint (Offset \<lparr>Offset = 0, Size = 2\<rparr>)) = Inr (?f\<lparr>pos := 0\<rparr>)"
    by (simp add: File_Seek_def)
  have r1: "File_ReadFull (?f\<lparr>pos := 0\<rparr>) binary_Size_BlockMetadata = (Inr ?mb, ?f\<lparr>pos := 14\<rparr>)"
    by (simp add: File_ReadFull_def io_ReadFull_def binary_Size_BlockMetadata_def file_bad length_ax)
  have m: "makeslice 4096 1 (unat (Size_md (get_BlockMetadata ?mb)))"
    by (simp add: get_md_data_ax makeslice_def)
  have r2: "File_ReadFull (?f\<lparr>pos := 14\<rparr>) (unat (Size_md (get_BlockMetadata ?mb)))
      = (Inr [1, 0, 0, 0, 1, 0, 0, 0, 97, 1, 0, 0, 0, 121], ?f\<lparr>pos := 28\<rparr>)"
    by (simp add: get_md_data_ax File_ReadFull_def io_ReadFull_def file_bad length_ax)
  have c: "ChecksumIEEE [1, 0, 0, 0, 1, 0, 0, 0, 97, 1, 0, 0, 0, 121]
      \<noteq> CRC (get_BlockMetadata ?mb)"
    by (simp add: get_md_data_ax crc_bad)
  from Get_CRC_mismatch_is_integrity_error [where r = reader_bad and ib = ?ib and key = "[97]"
      and h = "\<lparr>Offset = 0, Size = 2\<rparr>" and ?f1.0 = "?f\<lparr>pos := 0\<rparr>" and mb = ?mb
      and ?f2.0 = "?f\<lparr>pos := 14\<rparr>" and mem = 4096
      and data = "[1, 0, 0, 0, 1, 0, 0, 0, 97, 1, 0, 0, 0, 121]" and ?f3.0 = "?f\<lparr>pos := 28\<rparr>"]
    ib(1) find_ax [of 2 "[97]"] s r1 m r2 c
  have bad: "fst (Get 4096 reader_bad [97]) = Inl ErrBlockCRCMismatch"
    by (simp only: f simp_thms)
  have nf: "fst (Get 4096 reader_ax [98]) = Inl ErrKeyNotFound"
    by (rule Get_ax) simp
  from Get_CRC_mismatch_is_integrity_error [where r = reader_ax and key = "[98]" and mem = 4096]
    nf ib(2)
  show ?thesis
    using bad by auto
qed

section \<open>The two sizes of a block\<close>







lemma IBlock_eta: "\<lparr>entries_ib = entries_ib ib\<rparr> = ib"
  by (cases ib) simp


lemma flushBlock_empty: "IsEmpty (block w) \<Longrightarrow> flushBlock w = w"
  by (simp add: flushBlock_def)

lemma block_flushBlock: "block (flushBlock w) = (if IsEmpty (block w) then block w else NewBlock)"
  by (simp add: flushBlock_def Let_def)




lemma write_all_snoc: "write_all (kvs @ [(k, v)]) = Write (write_all kvs) k v"
  by (simp add: write_all_def)


lemma File_Seek_Inr:
  "File_Seek f off = Inr f1 \<Longrightarrow> 0 \<le> off \<and> \<not> closed f \<and> f1 = f\<lparr>pos := nat off\<rparr>"
  by (auto simp: File_Seek_def split: if_splits)






section \<open>Opening a reader\<close>

lemma makeslice_refused:
  "\<not> makeslice mem c (unat (w :: 32 word)) \<Longrightarrow> mem < c * 4294967295"
proof -
  assume "\<not> makeslice mem c (unat w)"
  then have 1: "mem < c * unat w" by (simp add: makeslice_def)
  have "unat w < 2 ^ 32" using unsigned_less [of w] by simp
  then have "unat w \<le> 4294967295" by simp
  then have 2: "c * unat w \<le> c * 4294967295" by (rule mult_le_mono2)
  from 1 2 show ?thesis by (rule less_le_trans)
qed

lemma decodeIndexBlock_loop_length:
  "decodeIndexBlock_loop mem n buf acc = (None, es) \<Longrightarrow> length es = length acc + n"
proof (induction n arbitrary: buf acc)
  case 0
  then show ?case by simp
next
  case (Suc n)
  then show ?case
    by (auto split: sum.splits prod.splits if_splits dest!: Suc.IH)
qed

lemma decodeIndexBlock_loop_Some:
  "decodeIndexBlock_loop mem n buf acc = (Some e, es) \<Longrightarrow>
   e = EOF \<or> e = ErrUnexpectedEOF \<or> (e = FatalOutOfMemory \<and> mem < 4294967295)"
proof (induction n arbitrary: buf acc)
  case 0
  then show ?case by simp
next
  case (Suc n)
  then show ?case
    by (auto split: sum.splits prod.splits if_splits
        dest: io_ReadFull_Inl Reader_Read_Inl makeslice_refused)
qed

lemma decodeIndexBlock_file:
  "decodeIndexBlock mem r data = (res, r') \<Longrightarrow> file_r r' = file_r r"
  by (auto simp: decodeIndexBlock_def split: sum.splits prod.splits if_splits)

lemma decodeIndexBlock_None:
  "decodeIndexBlock mem r data = (None, r') \<Longrightarrow>
   \<exists>es. indexBlock r' = Some \<lparr>entries_ib = es\<rparr> \<and> 4 \<le> length data \<and>
     length es = unat (get_u32 (take 4 data)) \<and> makeslice mem sizeof_IndexEntry (length es)"
  by (auto simp: decodeIndexBlock_def io_ReadFull_def
      split: sum.splits prod.splits if_splits dest: decodeIndexBlock_loop_length)

lemma decodeIndexBlock_Some:
  "decodeIndexBlock mem r data = (Some e, r') \<Longrightarrow>
   e = EOF \<or> e = ErrUnexpectedEOF \<or> (e = FatalOutOfMemory \<and> mem < 171798691800)"
  by (auto simp: decodeIndexBlock_def sizeof_IndexEntry_def
      split: sum.splits prod.splits if_splits
      dest: io_ReadFull_Inl decodeIndexBlock_loop_Some makeslice_refused)

lemma DecodeFooter_Inl: "DecodeFooter data = Inl e \<Longrightarrow> e = EOF \<or> e = ErrUnexpectedEOF"
  by (auto simp: DecodeFooter_def split: sum.splits prod.splits dest: io_ReadFull_Inl)

lemma loadIndexBlock_None:
  assumes "loadIndexBlock mem r = (None, r')"
  shows "\<exists>sz f1 footerData f2 footer f3 mb f4 data f5.
     File_Stat_Size (file_r r) = Inr sz \<and>
     File_Seek (file_r r) (sz - int FooterSize) = Inr f1 \<and>
     File_ReadFull f1 FooterSize = (Inr footerData, f2) \<and>
     DecodeFooter footerData = Inr footer \<and>
     MagicNumber_f footer = MagicNumber \<and>
     File_Seek f2 (sint (Offset (IndexHandle footer))) = Inr f3 \<and>
     File_ReadFull f3 binary_Size_BlockMetadata = (Inr mb, f4) \<and>
     Type (get_BlockMetadata mb) = IndexBlock \<and>
     makeslice mem 1 (unat (Size_md (get_BlockMetadata mb))) \<and>
     File_ReadFull f4 (unat (Size_md (get_BlockMetadata mb))) = (Inr data, f5) \<and>
     calculateCRC data = CRC (get_BlockMetadata mb) \<and>
     decodeIndexBlock mem (r\<lparr>file_r := f5, indexBlock := Some \<lparr>entries_ib = []\<rparr>\<rparr>) data = (None, r')"
  using assms
  by (auto simp: loadIndexBlock_def Let_def split: sum.splits prod.splits if_splits)

lemma File_ReadFull_closed:
  "File_ReadFull f n = (res, f') \<Longrightarrow> closed f' = closed f \<and> contents f' = contents f"
  by (auto simp: File_ReadFull_def split: if_splits sum.splits)

text \<open>
  The outcomes of \<open>loadIndexBlock\<close> that are not a return: only the fatal error of an
  allocation, and the largest request is that for \<open>2^32 - 1\<close> index entries of 40 bytes.
\<close>

lemma loadIndexBlock_crash:
  assumes "loadIndexBlock mem r = (Some e, r')" and "crashes e"
  shows "e = FatalOutOfMemory \<and> mem < 171798691800"
proof -
  have d: "e' = FatalOutOfMemory \<and> mem < 171798691800"
    if "decodeIndexBlock mem r1 data = (Some e', r2)" "crashes e'" for e' r1 r2 data
    using decodeIndexBlock_Some [OF that(1)] that(2) by auto
  have m: "mem < 171798691800" if "\<not> makeslice mem (Suc 0) (unat w)" for w :: "32 word"
    using makeslice_refused [OF that] by simp
  from assms show ?thesis
    by (auto simp: loadIndexBlock_def Let_def File_Stat_Size_def
        split: sum.splits prod.splits if_splits
        dest: File_Seek_Inl File_ReadFull_Inl DecodeFooter_Inl d m)
qed

lemma loadIndexBlock_keeps_file:
  assumes "loadIndexBlock mem r = (res, r')"
  shows "closed (file_r r') = closed (file_r r) \<and> contents (file_r r') = contents (file_r r)"
  using assms
  by (auto simp: loadIndexBlock_def Let_def
      split: sum.splits prod.splits if_splits
      dest!: File_Seek_Inr File_ReadFull_closed decodeIndexBlock_file)

lemma NewReader_Inl:
  assumes "fst (NewReader mem fs name) = Inl e"
  shows "(fs name = None \<and> snd (NewReader mem fs name) = None) \<or>
         (\<not> crashes e \<and> (\<exists>f. snd (NewReader mem fs name) = Some f \<and> closed f)) \<or>
         (e = FatalOutOfMemory \<and> mem < 171798691800 \<and>
            (\<exists>f. snd (NewReader mem fs name) = Some f \<and> \<not> closed f))"
proof (cases "fs name")
  case None
  then show ?thesis by (simp add: NewReader_def os_OpenFile_def)
next
  case (Some d)
  let ?r = "\<lparr>file_r = \<lparr>contents = d, pos = 0, closed = False\<rparr>, indexBlock = None\<rparr>"
  obtain err r' where l: "loadIndexBlock mem ?r = (err, r')"
    by (cases "loadIndexBlock mem ?r")
  from assms Some l have err: "err = Some e"
    by (cases err) (simp_all add: NewReader_def os_OpenFile_def split: if_splits)
  show ?thesis
  proof (cases "crashes e")
    case False
    with Some l err show ?thesis
      by (simp add: NewReader_def os_OpenFile_def File_Close_def)
  next
    case True
    from loadIndexBlock_crash [OF l [unfolded err] True]
    have e: "e = FatalOutOfMemory" "mem < 171798691800" by simp_all
    from loadIndexBlock_keeps_file [OF l] have "\<not> closed (file_r r')" by simp
    with Some l err True e show ?thesis
      by (simp add: NewReader_def os_OpenFile_def)
  qed
qed

lemma NewReader_Inr:
  assumes "NewReader mem fs name = (Inr r, h)"
  shows "\<exists>d sz f1 footerData f2 footer f3 mb f4 data f5 es.
     fs name = Some d \<and>
     File_Stat_Size \<lparr>contents = d, pos = 0, closed = False\<rparr> = Inr sz \<and>
     File_Seek \<lparr>contents = d, pos = 0, closed = False\<rparr> (sz - int FooterSize) = Inr f1 \<and>
     File_ReadFull f1 FooterSize = (Inr footerData, f2) \<and>
     DecodeFooter footerData = Inr footer \<and>
     MagicNumber_f footer = MagicNumber \<and>
     File_Seek f2 (sint (Offset (IndexHandle footer))) = Inr f3 \<and>
     File_ReadFull f3 binary_Size_BlockMetadata = (Inr mb, f4) \<and>
     Type (get_BlockMetadata mb) = IndexBlock \<and>
     makeslice mem 1 (unat (Size_md (get_BlockMetadata mb))) \<and>
     File_ReadFull f4 (unat (Size_md (get_BlockMetadata mb))) = (Inr data, f5) \<and>
     calculateCRC data = CRC (get_BlockMetadata mb) \<and>
     decodeIndexBlock mem \<lparr>file_r = f5, indexBlock = Some \<lparr>entries_ib = []\<rparr>\<rparr> data = (None, r) \<and>
     indexBlock r = Some \<lparr>entries_ib = es\<rparr> \<and>
     4 \<le> length data \<and> length es = unat (get_u32 (take 4 data)) \<and>
     makeslice mem sizeof_IndexEntry (length es) \<and>
     h = Some (file_r r) \<and> \<not> closed (file_r r) \<and> contents (file_r r) = d"
proof -
  from assms obtain d where d: "fs name = Some d"
    by (cases "fs name") (simp_all add: NewReader_def os_OpenFile_def)
  let ?f = "\<lparr>contents = d, pos = 0, closed = False\<rparr>"
  let ?r = "\<lparr>file_r = ?f, indexBlock = None\<rparr>"
  obtain err r' where l: "loadIndexBlock mem ?r = (err, r')"
    by (cases "loadIndexBlock mem ?r")
  from assms d l have err: "err = None" and r': "r' = r" and h: "h = Some (file_r r)"
    by (cases err; simp add: NewReader_def os_OpenFile_def split: if_splits)+
  from loadIndexBlock_None [OF l [unfolded err r']]
  obtain sz f1 footerData f2 footer f3 mb f4 data f5 where
    s: "File_Stat_Size ?f = Inr sz"
      "File_Seek ?f (sz - int FooterSize) = Inr f1"
      "File_ReadFull f1 FooterSize = (Inr footerData, f2)"
      "DecodeFooter footerData = Inr footer"
      "MagicNumber_f footer = MagicNumber"
      "File_Seek f2 (sint (Offset (IndexHandle footer))) = Inr f3"
      "File_ReadFull f3 binary_Size_BlockMetadata = (Inr mb, f4)"
      "Type (get_BlockMetadata mb) = IndexBlock"
      "makeslice mem 1 (unat (Size_md (get_BlockMetadata mb)))"
      "File_ReadFull f4 (unat (Size_md (get_BlockMetadata mb))) = (Inr data, f5)"
      "calculateCRC data = CRC (get_BlockMetadata mb)"
      "decodeIndexBlock mem \<lparr>file_r = f5, indexBlock = Some \<lparr>entries_ib = []\<rparr>\<rparr> data = (None, r)"
    by auto
  from decodeIndexBlock_None [OF s(12)] obtain es where
    r: "indexBlock r = Some \<lparr>entries_ib = es\<rparr>" "4 \<le> length data"
      "length es = unat (get_u32 (take 4 data))" "makeslice mem sizeof_IndexEntry (length es)"
    by auto
  from loadIndexBlock_keeps_file [OF l [unfolded r']]
  have c: "\<not> closed (file_r r)" "contents (file_r r) = d" by simp_all
  from d s r h c show ?thesis by blast
qed

text \<open>
  What \<open>NewReader\<close> does, whatever the file. When it returns an error it returns no
  reader, and either the file could not be opened or the handle it opened is closed. When
  it returns a reader, every step succeeded: the file was opened, the seek to the footer,
  the read of its 64 bytes and their decoding succeeded, the magic number is right, the
  seek to the index and the read of its metadata succeeded, the metadata has the index
  type, the payload was read in full, its CRC is the stored one and it was decoded without
  error; the reader holds the open file and the decoded index block, which has as many
  entries as the first four bytes of the payload declare. The third outcome is that the
  process ends in an allocation, with nothing returned and the handle not closed; it is
  excluded where a request of \<open>40 * (2^32 - 1)\<close> bytes is granted.
\<close>

lemma NewReader_outcomes:
  "(fst (NewReader mem fs name) = Inl e \<longrightarrow>
      (fs name = None \<and> snd (NewReader mem fs name) = None) \<or>
      (\<not> crashes e \<and> (\<exists>f. snd (NewReader mem fs name) = Some f \<and> closed f)) \<or>
      (e = FatalOutOfMemory \<and> mem < 171798691800 \<and>
         (\<exists>f. snd (NewReader mem fs name) = Some f \<and> \<not> closed f))) \<and>
   (NewReader mem fs name = (Inr r, h) \<longrightarrow>
      (\<exists>d sz f1 footerData f2 footer f3 mb f4 data f5 es.
         fs name = Some d \<and>
         File_Stat_Size \<lparr>contents = d, pos = 0, closed = False\<rparr> = Inr sz \<and>
         File_Seek \<lparr>contents = d, pos = 0, closed = False\<rparr> (sz - int FooterSize) = Inr f1 \<and>
         File_ReadFull f1 FooterSize = (Inr footerData, f2) \<and>
         DecodeFooter footerData = Inr footer \<and>
         MagicNumber_f footer = MagicNumber \<and>
         File_Seek f2 (sint (Offset (IndexHandle footer))) = Inr f3 \<and>
         File_ReadFull f3 binary_Size_BlockMetadata = (Inr mb, f4) \<and>
         Type (get_BlockMetadata mb) = IndexBlock \<and>
         makeslice mem 1 (unat (Size_md (get_BlockMetadata mb))) \<and>
         File_ReadFull f4 (unat (Size_md (get_BlockMetadata mb))) = (Inr data, f5) \<and>
         calculateCRC data = CRC (get_BlockMetadata mb) \<and>
         decodeIndexBlock mem \<lparr>file_r = f5, indexBlock = Some \<lparr>entries_ib = []\<rparr>\<rparr> data = (None, r) \<and>
         indexBlock r = Some \<lparr>entries_ib = es\<rparr> \<and>
         4 \<le> length data \<and> length es = unat (get_u32 (take 4 data)) \<and>
         makeslice mem sizeof_IndexEntry (length es) \<and>
         h = Some (file_r r) \<and> \<not> closed (file_r r) \<and> contents (file_r r) = d))"
  using NewReader_Inl [of mem fs name e] NewReader_Inr [of mem fs name r h]
  by blast

lemma crc_index_big: "ChecksumIEEE [255, 255, 255, 255] = 4294967295"
  by (simp add: eval_crc)

lemma file_big_parts: "length file_big = 82" "drop 18 file_big = footer_0"
  "take 14 file_big = [1, 255, 255, 255, 255, 4, 0, 0, 0, 0, 0, 0, 0, 0]"
  "take 4 (drop 14 file_big) = [255, 255, 255, 255]"
  by (simp_all add: file_big_def footer_0_def)

lemma get_md_big:
  "get_BlockMetadata [1, 255, 255, 255, 255, 4, 0, 0, 0, 0, 0, 0, 0, 0] =
     \<lparr>Type = 1, CRC = 4294967295, Size_md = 4, KeyCount_md = 0, Compressed = False\<rparr>"
  by (simp add: get_BlockMetadata_def get_u32_def)

lemma DecodeFooter_0: "DecodeFooter footer_0 =
   Inr \<lparr>IndexHandle = \<lparr>Offset = 0, Size = 4\<rparr>, FilterHandle = \<lparr>Offset = 0, Size = 0\<rparr>,
        MagicNumber_f = MagicNumber, Version = 1, CreatedAt = 7, CompressionType_f = 0\<rparr>"
  by (simp add: DecodeFooter_def io_ReadFull_def footer_0_def get_BlockHandle_def get_u64_def
      get_u32_def MagicNumber_def)

lemma count_big: "unat (get_u32 [255, 255, 255, 255]) = 4294967295"
  by (simp add: get_u32_def)

lemma decodeIndexBlock_loop_empty:
  "0 < n \<Longrightarrow> decodeIndexBlock_loop mem n [] acc = (Some EOF, acc)"
  by (cases n) (simp_all add: io_ReadFull_def)

lemma decodeIndexBlock_big:
  "decodeIndexBlock mem r [255, 255, 255, 255] =
     (if mem < 171798691800 then (Some FatalOutOfMemory, r)
      else (Some EOF, r\<lparr>indexBlock := Some \<lparr>entries_ib = []\<rparr>\<rparr>))"
  by (simp add: decodeIndexBlock_def io_ReadFull_def count_big eval_make
      decodeIndexBlock_loop_empty not_less)

lemma loadIndexBlock_big:
  "4 \<le> mem \<Longrightarrow>
   loadIndexBlock mem \<lparr>file_r = \<lparr>contents = file_big, pos = 0, closed = False\<rparr>, indexBlock = None\<rparr> =
     (if mem < 171798691800
      then (Some FatalOutOfMemory,
            \<lparr>file_r = \<lparr>contents = file_big, pos = 18, closed = False\<rparr>,
             indexBlock = Some \<lparr>entries_ib = []\<rparr>\<rparr>)
      else (Some EOF,
            \<lparr>file_r = \<lparr>contents = file_big, pos = 18, closed = False\<rparr>,
             indexBlock = Some \<lparr>entries_ib = []\<rparr>\<rparr>))"
  by (simp add: loadIndexBlock_def File_Stat_Size_def File_Seek_def File_ReadFull_def
      io_ReadFull_def file_big_parts FooterSize_def footer_0_def [THEN arg_cong [of _ _ length]]
      DecodeFooter_0 binary_Size_BlockMetadata_def get_md_big IndexBlock_def
      calculateCRC_def crc_index_big decodeIndexBlock_big makeslice_def)

text \<open>
  Claim C6, at a file of 82 bytes whose index block declares \<open>2^32 - 1\<close> entries and holds
  none; its footer, index metadata and CRC-32 are valid. \<open>decodeIndexBlock\<close> allocates room
  for the declared entries, 40 bytes each, before it reads the first. Where that request
  is not granted the process ends there: \<open>NewReader\<close> returns no error and does not close
  the file it opened. Where it is granted, the first read of the loop fails and
  \<open>NewReader\<close> returns \<open>io.EOF\<close> with the file closed, as it does for every index block
  that is cut short of a count the allocation can serve (lemma \<open>NewReader_outcomes\<close>).
\<close>

theorem NewReader_dies_on_declared_count:
  "(4 \<le> mem \<and> mem < 171798691800 \<longrightarrow>
      NewReader mem fs_big ''big.sst'' =
        (Inl FatalOutOfMemory, Some \<lparr>contents = file_big, pos = 18, closed = False\<rparr>)) \<and>
   (171798691800 \<le> mem \<longrightarrow>
      NewReader mem fs_big ''big.sst'' =
        (Inl EOF, Some \<lparr>contents = file_big, pos = 18, closed = True\<rparr>))"
  by (simp add: NewReader_def fs_big_def os_OpenFile_def loadIndexBlock_big File_Close_def)

theorem NewReader_dies_on_declared_count_witness:
  "NewReader 4294967296 fs_big ''big.sst'' =
     (Inl FatalOutOfMemory, Some \<lparr>contents = file_big, pos = 18, closed = False\<rparr>) \<and>
   NewReader 171798691800 fs_big ''big.sst'' =
     (Inl EOF, Some \<lparr>contents = file_big, pos = 18, closed = True\<rparr>)"
  using NewReader_dies_on_declared_count [of 4294967296]
    NewReader_dies_on_declared_count [of 171798691800]
  by simp

text \<open>
  Claim C10. On a file shorter than the 64 bytes of a footer, \<open>NewReader\<close> fails at the seek
  to \<open>size - 64\<close>, a negative offset: it returns that error and no reader, the file is
  closed, and nothing was read from it (the cursor is still at 0), so no footer was decoded.
\<close>

theorem NewReader_short_file:
  "fs name = Some d \<Longrightarrow> length d < FooterSize \<Longrightarrow>
   NewReader mem fs name = (Inl ErrInvalidSeek, Some \<lparr>contents = d, pos = 0, closed = True\<rparr>)"
  by (simp add: NewReader_def os_OpenFile_def loadIndexBlock_def File_Stat_Size_def File_Seek_def
      File_Close_def)

theorem NewReader_short_file_witness:
  "fs_short ''short.sst'' = Some [1, 2, 3] \<and> length [1, 2, 3 :: byte] < FooterSize \<and>
   NewReader 4096 fs_short ''short.sst'' =
     (Inl ErrInvalidSeek, Some \<lparr>contents = [1, 2, 3], pos = 0, closed = True\<rparr>)"
proof -
  have a: "fs_short ''short.sst'' = Some [1, 2, 3]"
    by (simp add: fs_short_def)
  have b: "length [1, 2, 3 :: byte] < FooterSize"
    by (simp add: FooterSize_def)
  from NewReader_short_file [of fs_short "''short.sst''" "[1, 2, 3]" 4096, OF a b] a b
  show ?thesis by simp
qed

lemma get_le_zeros: "get_le (replicate n 0) = 0"
  by (induction n) simp_all

lemma NewReader_zero:
  "NewReader mem fs_zero ''zero.sst'' =
     (Inl ErrWrongMagic, Some \<lparr>contents = replicate 64 0, pos = 64, closed = True\<rparr>)"
  by (simp add: NewReader_def fs_zero_def os_OpenFile_def loadIndexBlock_def File_Stat_Size_def
      File_Seek_def File_ReadFull_def io_ReadFull_def FooterSize_def DecodeFooter_def
      get_BlockHandle_def get_u64_def get_u32_def get_le_zeros MagicNumber_def File_Close_def)

lemma NewReader_outcomes_samples:
  "NewReader 4096 fs_ax ''none.sst'' = (Inl ErrNotExist, None) \<and>
   (\<exists>f. snd (NewReader 4096 fs_zero ''zero.sst'') = Some f \<and> closed f) \<and>
   NewReader 4096 fs_ax ''ax.sst'' = (Inr reader_ax, Some (file_r reader_ax)) \<and>
   (\<exists>es. indexBlock reader_ax = Some \<lparr>entries_ib = es\<rparr> \<and> length es = 1) \<and>
   \<not> closed (file_r reader_ax) \<and> contents (file_r reader_ax) = file_ax"
proof -
  have "NewReader 4096 fs_ax ''none.sst'' = (Inl ErrNotExist, None)"
    by (simp add: NewReader_def fs_ax_def os_OpenFile_def)
  then show ?thesis
    by (simp add: NewReader_zero NewReader_ax reader_ax_def)
qed

section \<open>Encoding and decoding\<close>

lemma length_put_le: "length (put_le n v) = n"
  by (induction n arbitrary: v) simp_all

lemma get_le_put_le: "get_le (put_le n v) = v mod 256 ^ n"
proof (induction n arbitrary: v)
  case 0
  show ?case by simp
next
  case (Suc n)
  have "unat (of_nat (v mod 256) :: byte) = v mod 256"
    by (simp add: unat_of_nat)
  then have "get_le (put_le (Suc n) v) = v mod 256 + 256 * ((v div 256) mod 256 ^ n)"
    by (simp add: Suc.IH)
  also have "\<dots> = v mod 256 ^ Suc n"
    by (simp add: mod_mult2_eq)
  finally show ?case .
qed

lemma length_put_u32: "length (put_u32 w) = 4"
  by (simp add: put_u32_def length_put_le)

lemma length_put_u64: "length (put_u64 w) = 8"
  by (simp add: put_u64_def length_put_le)

lemma get_put_u32: "get_u32 (put_u32 w) = w"
proof -
  have "unat w < 2 ^ 32" using unsigned_less [of w] by simp
  then have "unat w mod 256 ^ 4 = unat w" by simp
  then show ?thesis by (simp add: get_u32_def put_u32_def get_le_put_le)
qed

lemma get_put_u64: "get_u64 (put_u64 w) = w"
proof -
  have "unat w < 2 ^ 64" using unsigned_less [of w] by simp
  then have "unat w mod 256 ^ 8 = unat w" by simp
  then show ?thesis by (simp add: get_u64_def put_u64_def get_le_put_le)
qed

lemma io_ReadFull_append: "length xs = n \<Longrightarrow> io_ReadFull n (xs @ rest) = Inr (xs, rest)"
  by (simp add: io_ReadFull_def)

lemma Reader_Read_append:
  "length xs = n \<Longrightarrow> xs @ rest \<noteq> [] \<Longrightarrow> Reader_Read n (xs @ rest) = Inr (xs, rest)"
  by (simp add: Reader_Read_def)

lemma length_put_BlockMetadata: "length (put_BlockMetadata m) = 14"
  by (simp add: put_BlockMetadata_def length_put_u32)

lemma get_put_BlockMetadata: "get_BlockMetadata (put_BlockMetadata m) = m"
  by (simp add: get_BlockMetadata_def put_BlockMetadata_def length_put_u32 get_put_u32
      nth_append)

lemma length_Footer_Encode: "length (Footer_Encode f) = 53"
  by (simp add: Footer_Encode_def put_BlockHandle_def length_put_u32 length_put_u64)

lemma get_put_BlockHandle: "get_BlockHandle (put_BlockHandle h) = h"
  by (simp add: get_BlockHandle_def put_BlockHandle_def length_put_u64 get_put_u64)

lemma io_ReadFull_handle:
  "io_ReadFull 16 (put_u64 a @ put_u64 b @ rest) = Inr (put_u64 a @ put_u64 b, rest)"
  using io_ReadFull_append [of "put_u64 a @ put_u64 b" 16 rest] by (simp add: length_put_u64)

lemma io_ReadFull_u64: "io_ReadFull 8 (put_u64 a @ rest) = Inr (put_u64 a, rest)"
  by (simp add: io_ReadFull_append length_put_u64)

lemma io_ReadFull_u32: "io_ReadFull 4 (put_u32 a @ rest) = Inr (put_u32 a, rest)"
  by (simp add: io_ReadFull_append length_put_u32)

lemma io_ReadFull_byte: "io_ReadFull (Suc 0) (a # rest) = Inr ([a], rest)"
  by (simp add: io_ReadFull_def)

lemma DecodeFooter_Encode: "DecodeFooter (Footer_Encode f @ pad) = Inr f"
  by (simp add: DecodeFooter_def Footer_Encode_def put_BlockHandle_def io_ReadFull_handle
      io_ReadFull_u64 io_ReadFull_u32 io_ReadFull_byte
      get_put_BlockHandle [unfolded put_BlockHandle_def] get_put_u64 get_put_u32)

lemma Entry_eta: "\<lparr>Key = Key e, Value = Value e\<rparr> = e"
  by (cases e) simp

lemma IndexEntry_eta:
  "\<lparr>Key_ie = Key_ie e, BlockHandle_ie = \<lparr>Offset = Offset (BlockHandle_ie e),
      Size = Size (BlockHandle_ie e)\<rparr>\<rparr> = e"
  by (cases e, cases "BlockHandle_ie e") simp

lemma put_u32_nonempty: "put_u32 w \<noteq> []"
  using length_put_u32 [of w] by auto

lemma put_u64_nonempty: "put_u64 w \<noteq> []"
  using length_put_u64 [of w] by auto

lemma unat_of_nat_u32: "n < 2 ^ 32 \<Longrightarrow> unat (of_nat n :: 32 word) = n"
  by (simp add: unat_of_nat)

lemma readBlock_entry:
  assumes k: "length (Key e) < 2 ^ 32" and v: "length (Value e) < 2 ^ 32"
    and ne: "Value e \<noteq> [] \<or> rest \<noteq> []"
    and m: "length (Key e) \<le> mem" "length (Value e) \<le> mem"
  shows "readBlock_loop mem (Suc n) (put_Entry e @ rest) acc = readBlock_loop mem n rest (acc @ [e])"
proof -
  have 1: "io_ReadFull 4 (put_Entry e @ rest) =
      Inr (put_u32 (of_nat (length (Key e))),
           Key e @ put_u32 (of_nat (length (Value e))) @ Value e @ rest)"
    by (simp add: put_Entry_def io_ReadFull_u32)
  have 2: "Reader_Read (length (Key e)) (Key e @ put_u32 (of_nat (length (Value e))) @ Value e @ rest)
      = Inr (Key e, put_u32 (of_nat (length (Value e))) @ Value e @ rest)"
    by (rule Reader_Read_append) (simp_all add: put_u32_nonempty)
  have 3: "io_ReadFull 4 (put_u32 (of_nat (length (Value e))) @ Value e @ rest) =
      Inr (put_u32 (of_nat (length (Value e))), Value e @ rest)"
    by (simp add: io_ReadFull_u32)
  have 4: "Reader_Read (length (Value e)) (Value e @ rest) = Inr (Value e, rest)"
    using ne by (intro Reader_Read_append) auto
  have k': "unat (of_nat (length (Key e)) :: 32 word) = length (Key e)"
    using k by (rule unat_of_nat_u32)
  have v': "unat (of_nat (length (Value e)) :: 32 word) = length (Value e)"
    using v by (rule unat_of_nat_u32)
  show ?thesis
    using m by (simp add: 1 2 3 4 get_put_u32 k' v' Entry_eta makeslice_def)
qed

lemma put_Entry_nonempty: "put_Entry e \<noteq> []"
  by (simp add: put_Entry_def put_u32_nonempty)

lemma readBlock_loop_encode:
  "(\<forall>e\<in>set es. length (Key e) < 2 ^ 32 \<and> length (Value e) < 2 ^ 32 \<and>
      length (Key e) \<le> mem \<and> length (Value e) \<le> mem) \<Longrightarrow>
   rest \<noteq> [] \<or> es = [] \<or> Value (last es) \<noteq> [] \<Longrightarrow>
   readBlock_loop mem (length es) (concat (map put_Entry es) @ rest) acc = Inr (acc @ es)"
proof (induction es arbitrary: acc)
  case Nil
  show ?case by simp
next
  case (Cons e es)
  have ne: "Value e \<noteq> [] \<or> concat (map put_Entry es) @ rest \<noteq> []"
  proof (cases es)
    case Nil
    with Cons.prems(2) show ?thesis by auto
  next
    case (Cons e' es')
    then show ?thesis by (simp add: put_Entry_nonempty)
  qed
  have tail: "rest \<noteq> [] \<or> es = [] \<or> Value (last es) \<noteq> []"
    using Cons.prems(2) by (cases es) auto
  have "readBlock_loop mem (length (e # es)) (concat (map put_Entry (e # es)) @ rest) acc
      = readBlock_loop mem (length es) (concat (map put_Entry es) @ rest) (acc @ [e])"
    using readBlock_entry [of e "concat (map put_Entry es) @ rest" mem "length es" acc]
      Cons.prems(1) ne
    by simp
  also have "\<dots> = Inr ((acc @ [e]) @ es)"
    using Cons.IH [OF _ tail] Cons.prems(1) by simp
  finally show ?case by simp
qed

lemma readBlock_decode_Encode:
  assumes "length (entries b) < 2 ^ 32"
    and "\<forall>e\<in>set (entries b). length (Key e) < 2 ^ 32 \<and> length (Value e) < 2 ^ 32"
    and "entries b = [] \<or> Value (last (entries b)) \<noteq> []"
    and "48 * length (entries b) \<le> mem"
    and "\<forall>e\<in>set (entries b). length (Key e) \<le> mem \<and> length (Value e) \<le> mem"
  shows "readBlock_decode mem (Encode b) = Inr \<lparr>entries = entries b, size_b = 0\<rparr>"
proof -
  have "readBlock_loop mem (length (entries b)) (concat (map put_Entry (entries b)) @ []) []
      = Inr ([] @ entries b)"
    using assms(2,3,5) by (intro readBlock_loop_encode) auto
  moreover have "unat (of_nat (length (entries b)) :: 32 word) = length (entries b)"
    using assms(1) by (rule unat_of_nat_u32)
  ultimately show ?thesis
    using assms(4)
    by (simp add: readBlock_decode_def Encode_def io_ReadFull_u32 get_put_u32 eval_make)
qed

lemma decodeIndexBlock_entry:
  assumes k: "length (Key_ie e) < 2 ^ 32" and m: "length (Key_ie e) \<le> mem"
  shows "decodeIndexBlock_loop mem (Suc n) (put_IndexEntry e @ rest) acc
      = decodeIndexBlock_loop mem n rest (acc @ [e])"
proof -
  let ?h = "put_u64 (Offset (BlockHandle_ie e)) @ put_u64 (Size (BlockHandle_ie e)) @ rest"
  have 1: "io_ReadFull 4 (put_IndexEntry e @ rest) =
      Inr (put_u32 (of_nat (length (Key_ie e))), Key_ie e @ ?h)"
    by (simp add: put_IndexEntry_def io_ReadFull_u32)
  have 2: "Reader_Read (length (Key_ie e)) (Key_ie e @ ?h) = Inr (Key_ie e, ?h)"
    by (rule Reader_Read_append) (simp_all add: put_u64_nonempty)
  have k': "unat (of_nat (length (Key_ie e)) :: 32 word) = length (Key_ie e)"
    using k by (rule unat_of_nat_u32)
  show ?thesis
    using m
    by (simp add: 1 2 io_ReadFull_u64 get_put_u32 get_put_u64 k' IndexEntry_eta makeslice_def)
qed

lemma decodeIndexBlock_loop_encode:
  "(\<forall>e\<in>set es. length (Key_ie e) < 2 ^ 32 \<and> length (Key_ie e) \<le> mem) \<Longrightarrow>
   decodeIndexBlock_loop mem (length es) (concat (map put_IndexEntry es) @ rest) acc
     = (None, acc @ es)"
proof (induction es arbitrary: acc)
  case Nil
  show ?case by simp
next
  case (Cons e es)
  have "decodeIndexBlock_loop mem (length (e # es)) (concat (map put_IndexEntry (e # es)) @ rest) acc
      = decodeIndexBlock_loop mem (length es) (concat (map put_IndexEntry es) @ rest) (acc @ [e])"
    using decodeIndexBlock_entry [of e mem "length es" "concat (map put_IndexEntry es) @ rest" acc]
      Cons.prems by simp
  also have "\<dots> = (None, (acc @ [e]) @ es)"
    using Cons.IH Cons.prems by simp
  finally show ?case by simp
qed

lemma decodeIndexBlock_Encode:
  assumes "length (entries_ib ib) < 2 ^ 32"
    and "\<forall>e\<in>set (entries_ib ib). length (Key_ie e) < 2 ^ 32"
    and "40 * length (entries_ib ib) \<le> mem"
    and "\<forall>e\<in>set (entries_ib ib). length (Key_ie e) \<le> mem"
  shows "decodeIndexBlock mem r (IBlock_Encode ib) = (None, r\<lparr>indexBlock := Some ib\<rparr>)"
proof -
  have "decodeIndexBlock_loop mem (length (entries_ib ib))
      (concat (map put_IndexEntry (entries_ib ib)) @ []) [] = (None, [] @ entries_ib ib)"
    using assms(2,4) by (intro decodeIndexBlock_loop_encode) auto
  moreover have "unat (of_nat (length (entries_ib ib)) :: 32 word) = length (entries_ib ib)"
    using assms(1) by (rule unat_of_nat_u32)
  ultimately show ?thesis
    using assms(3)
    by (simp add: decodeIndexBlock_def IBlock_Encode_def io_ReadFull_u32 get_put_u32 IBlock_eta
        eval_make)
qed

section \<open>The file a writer session leaves\<close>

lemma length_frame: "length (frame b) = 14 + length (Encode b)"
  by (simp add: frame_def length_put_BlockMetadata)

lemma index_of_snoc:
  "index_of off (bs @ [b]) = index_of off bs @
     [\<lparr>Key_ie = Key (hd (entries b)),
       BlockHandle_ie = \<lparr>Offset = of_nat (off + length (concat (map frame bs))),
                          Size = ucast (size_b b)\<rparr>\<rparr>]"
  by (induction bs arbitrary: off) (simp_all add: add.assoc)

lemma length_index_of: "length (index_of off bs) = length bs"
  by (induction bs arbitrary: off) simp_all

lemma index_of_nth:
  "i < length bs \<Longrightarrow> index_of off bs ! i =
     \<lparr>Key_ie = Key (hd (entries (bs ! i))),
      BlockHandle_ie = \<lparr>Offset = of_nat (off + length (concat (map frame (take i bs)))),
                         Size = ucast (size_b (bs ! i))\<rparr>\<rparr>"
proof (induction bs arbitrary: off i)
  case Nil
  then show ?case by simp
next
  case (Cons b bs)
  show ?case
  proof (cases i)
    case 0
    then show ?thesis by simp
  next
    case (Suc j)
    with Cons.prems have "j < length bs" by simp
    from Cons.IH [OF this, of "off + length (frame b)"] Suc show ?thesis
      by (simp add: add.assoc)
  qed
qed

lemma flushed_NewWriter: "flushed NewWriter []"
  by (simp add: flushed_def NewWriter_def NewIBlock_def)

lemma flushed_flushBlock:
  assumes "flushed w bs" and "\<not> IsEmpty (block w)"
  shows "flushed (flushBlock w) (bs @ [block w])"
proof -
  have "(of_nat (length (concat (map frame bs))) :: 64 word)
        + (of_nat (length (Encode (block w))) + of_nat binary_Size_BlockMetadata)
      = of_nat (length (concat (map frame bs)) + length (frame (block w)))"
    by (simp add: length_frame binary_Size_BlockMetadata_def)
  with assms show ?thesis
    by (simp add: flushed_def flushBlock_nonempty IBlock_AddEntry_def index_of_snoc frame_def
        IsEmpty_def)
qed

lemma flushed_block_update: "flushed (w\<lparr>block := b\<rparr>) bs = flushed w bs"
  by (simp add: flushed_def)

lemma entries_AddEntry: "entries (AddEntry b k v) = entries b @ [mk_Entry (k, v)]"
  by (simp add: AddEntry_def mk_Entry_def)

lemma flushed_Write:
  assumes "flushed w bs" and "concat (map entries bs) @ entries (block w) = es"
  shows "\<exists>bs'. flushed (Write w k v) bs' \<and>
     concat (map entries bs') @ entries (block (Write w k v)) = es @ [mk_Entry (k, v)]"
proof (cases "IsFull (block w) \<and> \<not> IsEmpty (block w)")
  case True
  then have "flushed (flushBlock w) (bs @ [block w])"
    using assms(1) by (simp add: flushed_flushBlock)
  moreover have "block (flushBlock w) = NewBlock"
    using True by (simp add: block_flushBlock)
  ultimately show ?thesis
    using True assms(2)
    by (intro exI [of _ "bs @ [block w]"])
       (simp add: Write_def Let_def flushed_block_update entries_AddEntry NewBlock_def)
next
  case False
  then have "(if IsFull (block w) then flushBlock w else w) = w"
    by (auto simp: flushBlock_empty)
  then show ?thesis
    using assms
    by (intro exI [of _ bs]) (simp add: Write_def Let_def flushed_block_update entries_AddEntry)
qed

lemma flushed_write_all:
  "\<exists>bs. flushed (write_all kvs) bs \<and>
     concat (map entries bs) @ entries (block (write_all kvs)) = map mk_Entry kvs"
proof (induction kvs rule: rev_induct)
  case Nil
  show ?case
    using flushed_NewWriter
    by (intro exI [of _ "[]"]) (simp add: write_all_def NewWriter_def NewBlock_def)
next
  case (snoc x xs)
  then obtain bs where "flushed (write_all xs) bs"
    "concat (map entries bs) @ entries (block (write_all xs)) = map mk_Entry xs"
    by blast
  from flushed_Write [OF this, of "fst x" "snd x"] show ?case
    by (cases x) (simp add: write_all_snoc)
qed

lemma Close_flushed:
  assumes "flushed w bs" and "IsEmpty (block w)"
  shows "Close now w = Inr (concat (map frame bs) @ index_frame \<lparr>entries_ib = index_of 0 bs\<rparr>
     @ Footer_Encode (footer_of now (length (concat (map frame bs))) \<lparr>entries_ib = index_of 0 bs\<rparr>)
     @ replicate 11 0)"
proof -
  have ib: "index w = \<lparr>entries_ib = index_of 0 bs\<rparr>"
    using assms(1) by (cases "index w") (simp add: flushed_def)
  show ?thesis
    using assms
    by (simp add: Close_def flushBlock_empty Let_def length_Footer_Encode FooterSize_def
        flushed_def ib index_frame_def footer_of_def)
qed

lemma flushed_empty_block: "flushed w bs \<Longrightarrow> flushed (flushBlock w)
     (if IsEmpty (block w) then bs else bs @ [block w]) \<and> IsEmpty (block (flushBlock w))"
  by (simp add: flushed_flushBlock flushBlock_empty block_flushBlock IsEmpty_def NewBlock_def)

lemma Close_flushBlock: "Close now (flushBlock w) = Close now w"
proof -
  have "flushBlock (flushBlock w) = flushBlock w"
    by (cases "IsEmpty (block w)")
       (simp_all add: flushBlock_empty block_flushBlock IsEmpty_def NewBlock_def)
  then show ?thesis by (simp add: Close_def)
qed

lemma Close_write_all:
  "\<exists>bs. list_all (\<lambda>b. entries b \<noteq> []) bs \<and> concat (map entries bs) = map mk_Entry kvs \<and>
     Close now (write_all kvs) =
       Inr (concat (map frame bs) @ index_frame \<lparr>entries_ib = index_of 0 bs\<rparr>
         @ Footer_Encode (footer_of now (length (concat (map frame bs)))
              \<lparr>entries_ib = index_of 0 bs\<rparr>)
         @ replicate 11 0)"
proof -
  let ?w = "write_all kvs"
  from flushed_write_all [of kvs] obtain bs where
    f: "flushed ?w bs" and c: "concat (map entries bs) @ entries (block ?w) = map mk_Entry kvs"
    by blast
  let ?bs = "if IsEmpty (block ?w) then bs else bs @ [block ?w]"
  from flushed_empty_block [OF f]
  have f': "flushed (flushBlock ?w) ?bs" and e: "IsEmpty (block (flushBlock ?w))"
    by simp_all
  have "Close now ?w = Close now (flushBlock ?w)"
    by (simp add: Close_flushBlock)
  also note Close_flushed [OF f' e, of now]
  finally have cl: "Close now ?w =
       Inr (concat (map frame ?bs) @ index_frame \<lparr>entries_ib = index_of 0 ?bs\<rparr>
         @ Footer_Encode (footer_of now (length (concat (map frame ?bs)))
              \<lparr>entries_ib = index_of 0 ?bs\<rparr>)
         @ replicate 11 0)" .
  have "concat (map entries ?bs) = map mk_Entry kvs"
    using c by (auto simp: IsEmpty_def)
  moreover have "list_all (\<lambda>b. entries b \<noteq> []) ?bs"
    using f' by (simp add: flushed_def)
  ultimately show ?thesis using cl by blast
qed










section \<open>A written table read back\<close>

text \<open>
  What \<open>Get\<close> returns on the file of a writer session whose keys are strictly increasing,
  when the file is shorter than \<open>2^32\<close> bytes (so that every length and count fits its
  32-bit field), no value is empty and the allocations of the reader are granted: the value
  of every written key, and key-not-found for every other key unless the table is empty.
  No request of the reader on such a file is for more than six times the length of the
  file (an entry takes 48 bytes in memory and at least 8 in the file), so that much granted
  is enough. The lemmas lead to \<open>written_table\<close>.
\<close>

subsection \<open>The binary search of a block\<close>

lemma searchInBlock_loop_found:
  "sorted_wrt (<) (map Key es) \<Longrightarrow> 0 \<le> left \<Longrightarrow> right < int (length es) \<Longrightarrow>
   left \<le> int p \<Longrightarrow> int p \<le> right \<Longrightarrow> Key (es ! p) = key \<Longrightarrow>
   searchInBlock_loop es key left right = Inr (Value (es ! p))"
proof (induction es key left right rule: searchInBlock_loop.induct)
  case (1 es key left right)
  from "1.prems" have lr: "left \<le> right" by simp
  define mid where "mid = go_div (left + right) 2"
  from lr go_div_mid [of left right] have mid: "left \<le> mid" "mid \<le> right"
    by (simp_all add: mid_def)
  with "1.prems" have m0: "0 \<le> mid" "mid < int (length es)" by simp_all
  then have at: "at_index es mid = Inr (es ! nat mid)"
    by (simp add: at_index_def)
  have p: "p < length es" using "1.prems" by simp
  have strict: "\<And>i j. i < j \<Longrightarrow> j < length es \<Longrightarrow> Key (es ! i) < Key (es ! j)"
    using "1.prems"(1) by (simp add: sorted_wrt_iff_nth_less)
  show ?case
  proof (cases "Key (es ! nat mid) = key")
    case True
    have "nat mid = p"
    proof (rule ccontr)
      assume "nat mid \<noteq> p"
      then consider "nat mid < p" | "p < nat mid" by linarith
      then show False
      proof cases
        case 1
        from strict [OF 1 p] True "1.prems"(6) show False by simp
      next
        case 2
        with m0 have "nat mid < length es" by simp
        from strict [OF 2 this] True "1.prems"(6) show False by simp
      qed
    qed
    with True lr at show ?thesis
      by (subst searchInBlock_loop.simps)
         (simp add: mid_def [symmetric] Let_def bytes_Compare_eq0)
  next
    case False
    show ?thesis
    proof (cases "Key (es ! nat mid) < key")
      case less: True
      have "nat mid < p"
      proof (rule ccontr)
        assume "\<not> nat mid < p"
        with False "1.prems"(6) have "p < nat mid" by (cases "p = nat mid") auto
        moreover have "nat mid < length es" using m0 by simp
        ultimately have "Key (es ! p) < Key (es ! nat mid)" by (rule strict)
        with less "1.prems"(6) show False by simp
      qed
      then have pm: "mid + 1 \<le> int p" using m0 by linarith
      have cmp: "bytes_Compare (Key (es ! nat mid)) key \<noteq> 0" "bytes_Compare (Key (es ! nat mid)) key < 0"
        using False less by (simp_all add: bytes_Compare_eq0 bytes_Compare_lt0)
      have "searchInBlock_loop es key (mid + 1) right = Inr (Value (es ! p))"
        using "1.IH"(1) [OF lr mid_def at refl cmp(1) cmp(2) "1.prems"(1) _ "1.prems"(3) pm
            "1.prems"(5) "1.prems"(6)] m0
        by simp
      with lr at cmp show ?thesis
        by (subst searchInBlock_loop.simps) (simp add: mid_def [symmetric] Let_def)
    next
      case ge: False
      with False have gt: "key < Key (es ! nat mid)" by simp
      have "p < nat mid"
      proof (rule ccontr)
        assume "\<not> p < nat mid"
        with False "1.prems"(6) have "nat mid < p" by (cases "p = nat mid") auto
        from strict [OF this p] gt "1.prems"(6) show False by simp
      qed
      then have pm: "int p \<le> mid - 1" by linarith
      have cmp: "bytes_Compare (Key (es ! nat mid)) key \<noteq> 0"
        "\<not> bytes_Compare (Key (es ! nat mid)) key < 0"
        using False ge by (simp_all add: bytes_Compare_eq0 bytes_Compare_lt0)
      have "searchInBlock_loop es key left (mid - 1) = Inr (Value (es ! p))"
        using "1.IH"(2) [OF lr mid_def at refl cmp(1) cmp(2) "1.prems"(1) "1.prems"(2) _
            "1.prems"(4) pm "1.prems"(6)] m0
        by simp
      with lr at cmp show ?thesis
        by (subst searchInBlock_loop.simps) (simp add: mid_def [symmetric] Let_def)
    qed
  qed
qed

lemma searchInBlock_loop_absent:
  "\<forall>e\<in>set es. Key e \<noteq> key \<Longrightarrow> 0 \<le> left \<Longrightarrow> right < int (length es) \<Longrightarrow>
   searchInBlock_loop es key left right = Inl ErrKeyNotFound"
proof (induction es key left right rule: searchInBlock_loop.induct)
  case (1 es key left right)
  show ?case
  proof (cases "left \<le> right")
    case False
    then show ?thesis by (subst searchInBlock_loop.simps) simp
  next
    case lr: True
    define mid where "mid = go_div (left + right) 2"
    from lr go_div_mid [of left right] have mid: "left \<le> mid" "mid \<le> right"
      by (simp_all add: mid_def)
    with "1.prems" have m0: "0 \<le> mid" "mid < int (length es)" by simp_all
    then have at: "at_index es mid = Inr (es ! nat mid)"
      by (simp add: at_index_def)
    from m0 have "es ! nat mid \<in> set es" by simp
    with "1.prems"(1) have ne: "bytes_Compare (Key (es ! nat mid)) key \<noteq> 0"
      by (simp add: bytes_Compare_eq0)
    show ?thesis
    proof (cases "bytes_Compare (Key (es ! nat mid)) key < 0")
      case True
      have "searchInBlock_loop es key (mid + 1) right = Inl ErrKeyNotFound"
        using "1.IH"(1) [OF lr mid_def at refl ne True "1.prems"(1) _ "1.prems"(3)] m0 by simp
      with lr at ne True show ?thesis
        by (subst searchInBlock_loop.simps) (simp add: mid_def [symmetric] Let_def)
    next
      case False
      have "searchInBlock_loop es key left (mid - 1) = Inl ErrKeyNotFound"
        using "1.IH"(2) [OF lr mid_def at refl ne False "1.prems"(1) "1.prems"(2)] m0 mid by simp
      with lr at ne False show ?thesis
        by (subst searchInBlock_loop.simps) (simp add: mid_def [symmetric] Let_def)
    qed
  qed
qed

lemma searchInBlock_found:
  assumes "sorted_wrt (<) (map Key (entries b))" and "p < length (entries b)"
    and "Key (entries b ! p) = key"
  shows "searchInBlock b key = Inr (Value (entries b ! p))"
  unfolding searchInBlock_def
  using assms by (intro searchInBlock_loop_found) simp_all

lemma searchInBlock_absent:
  assumes "\<forall>e\<in>set (entries b). Key e \<noteq> key"
  shows "searchInBlock b key = Inl ErrKeyNotFound"
  unfolding searchInBlock_def
  using assms by (intro searchInBlock_loop_absent) simp_all

subsection \<open>The reader on that file\<close>

lemma sint_of_nat_u64: "n < 2 ^ 63 \<Longrightarrow> sint (of_nat n :: 64 word) = int n"
proof -
  assume "n < 2 ^ 63"
  then have "int n < 2 ^ 63"
    using of_nat_less_iff [of n "2 ^ 63", where ?'a = int] by simp
  then have "signed_take_bit 63 (int n) = int n"
    by (intro signed_take_bit_int_eq_self) simp_all
  then show ?thesis by (simp add: signed_of_nat)
qed

lemma File_Seek_ok:
  "\<not> closed f \<Longrightarrow> n < 2 ^ 63 \<Longrightarrow> File_Seek f (sint (of_nat n :: 64 word)) = Inr (f\<lparr>pos := n\<rparr>)"
  by (simp add: File_Seek_def sint_of_nat_u64)

lemma File_ReadFull_ok:
  "\<not> closed f \<Longrightarrow> contents f = pre @ xs @ post \<Longrightarrow> pos f = length pre \<Longrightarrow> length xs = n \<Longrightarrow>
   File_ReadFull f n = (Inr xs, f\<lparr>pos := length pre + n\<rparr>)"
  by (cases "n = 0") (auto simp: File_ReadFull_def io_ReadFull_def)

lemma length_index_frame: "length (index_frame ib) = 14 + length (IBlock_Encode ib)"
  by (simp add: index_frame_def length_put_BlockMetadata)

lemma loadIndexBlock_file:
  fixes D :: bytes and ib :: IBlock and now :: "64 word"
  defines "F \<equiv> Footer_Encode (footer_of now (length D) ib) @ replicate 11 0"
  defines "file \<equiv> D @ index_frame ib @ F"
  assumes len: "length file < 2 ^ 32"
    and keys: "\<forall>e\<in>set (entries_ib ib). length (Key_ie e) < 2 ^ 32"
    and cnt: "length (entries_ib ib) < 2 ^ 32"
    and mp: "length (IBlock_Encode ib) \<le> mem"
    and mc: "40 * length (entries_ib ib) \<le> mem"
    and mk: "\<forall>e\<in>set (entries_ib ib). length (Key_ie e) \<le> mem"
  shows "loadIndexBlock mem \<lparr>file_r = \<lparr>contents = file, pos = p, closed = False\<rparr>, indexBlock = x\<rparr> =
     (None, \<lparr>file_r = \<lparr>contents = file, pos = length D + 14 + length (IBlock_Encode ib),
                       closed = False\<rparr>,
             indexBlock = Some ib\<rparr>)"
proof -
  let ?IP = "IBlock_Encode ib"
  let ?md = "\<lparr>Type = IndexBlock, CRC = calculateCRC ?IP, Size_md = of_nat (length ?IP),
      KeyCount_md = of_nat (length (entries_ib ib)), Compressed = False\<rparr>"
  define f0 where "f0 = \<lparr>contents = file, pos = p, closed = False\<rparr>"
  define f1 where "f1 = f0\<lparr>pos := length (D @ index_frame ib)\<rparr>"
  define f2 where "f2 = f1\<lparr>pos := length (D @ index_frame ib) + 64\<rparr>"
  define f3 where "f3 = f2\<lparr>pos := length D\<rparr>"
  define f4 where "f4 = f3\<lparr>pos := length D + 14\<rparr>"
  define f5 where "f5 = f4\<lparr>pos := length (D @ put_BlockMetadata ?md) + length ?IP\<rparr>"
  have lF: "length F = 64"
    by (simp add: F_def length_Footer_Encode)
  have lfile: "length file = length D + (14 + length ?IP) + 64"
    by (simp add: file_def lF length_index_frame)
  have file2: "file = D @ put_BlockMetadata ?md @ (?IP @ F)"
    by (simp add: file_def index_frame_def)
  have file3: "file = (D @ put_BlockMetadata ?md) @ ?IP @ F"
    by (simp add: file_def index_frame_def)
  have file4: "file = (D @ index_frame ib) @ F @ []"
    by (simp add: file_def)
  have s0: "File_Stat_Size f0 = Inr (int (length file))"
    by (simp add: File_Stat_Size_def f0_def)
  have s1: "File_Seek f0 (int (length file) - int FooterSize) = Inr f1"
    by (simp add: File_Seek_def FooterSize_def lfile f0_def f1_def length_index_frame)
  have r1: "File_ReadFull f1 FooterSize = (Inr F, f2)"
    unfolding f2_def FooterSize_def
    by (rule File_ReadFull_ok [where post = "[]"]) (simp_all add: f1_def f0_def file4 lF)
  have d: "DecodeFooter F = Inr (footer_of now (length D) ib)"
    by (simp add: F_def DecodeFooter_Encode)
  have lD: "length D < 2 ^ 63"
    using len lfile by simp
  have s2: "File_Seek f2 (sint (Offset (IndexHandle (footer_of now (length D) ib)))) = Inr f3"
    using File_Seek_ok [of f2 "length D"] lD
    by (simp add: footer_of_def f3_def f2_def f1_def f0_def)
  have r2: "File_ReadFull f3 binary_Size_BlockMetadata = (Inr (put_BlockMetadata ?md), f4)"
    unfolding f4_def binary_Size_BlockMetadata_def
    by (rule File_ReadFull_ok [where post = "?IP @ F"])
       (simp_all add: f3_def f2_def f1_def f0_def file2 length_put_BlockMetadata)
  have sz: "unat (of_nat (length ?IP) :: 32 word) = length ?IP"
    using len lfile by (intro unat_of_nat_u32) simp
  have r3: "File_ReadFull f4 (length ?IP) = (Inr ?IP, f5)"
    unfolding f5_def
    by (rule File_ReadFull_ok [where post = F])
       (simp_all add: f4_def f3_def f2_def f1_def f0_def file3 length_put_BlockMetadata)
  have dec: "\<And>r. decodeIndexBlock mem r ?IP = (None, r\<lparr>indexBlock := Some ib\<rparr>)"
    using cnt keys mc mk by (rule decodeIndexBlock_Encode)
  have m: "MagicNumber_f (footer_of now (length D) ib) = MagicNumber"
    by (simp add: footer_of_def)
  have "loadIndexBlock mem \<lparr>file_r = f0, indexBlock = x\<rparr> = (None, \<lparr>file_r = f5, indexBlock = Some ib\<rparr>)"
    using mp
    by (simp add: loadIndexBlock_def s0 s1 r1 d m s2 r2 get_put_BlockMetadata sz r3 dec
        makeslice_def)
  then show ?thesis
    by (simp add: f5_def f4_def f3_def f2_def f1_def f0_def length_put_BlockMetadata)
qed

lemma concat_frames_split:
  "i < length bs \<Longrightarrow>
   concat (map frame bs) = concat (map frame (take i bs)) @ frame (bs ! i)
     @ concat (map frame (drop (Suc i) bs))"
proof -
  assume "i < length bs"
  then have "bs = take i bs @ bs ! i # drop (Suc i) bs"
    by (rule id_take_nth_drop)
  then have "concat (map frame bs) = concat (map frame (take i bs @ bs ! i # drop (Suc i) bs))"
    by simp
  then show ?thesis by simp
qed

lemma readBlock_file:
  assumes c: "contents f = concat (map frame bs) @ rest" and o: "\<not> closed f"
    and i: "i < length bs" and len: "length (contents f) < 2 ^ 32"
    and mp: "length (Encode (bs ! i)) \<le> mem"
  shows "fst (readBlock mem f (BlockHandle_ie (index_of 0 bs ! i))) = readBlock_decode mem (Encode (bs ! i))"
proof -
  let ?b = "bs ! i"
  let ?pre = "concat (map frame (take i bs))"
  let ?post = "concat (map frame (drop (Suc i) bs)) @ rest"
  let ?md = "\<lparr>Type = DataBlock, CRC = ChecksumIEEE (Encode ?b),
        Size_md = of_nat (length (Encode ?b)), KeyCount_md = of_nat (KeyCount ?b),
        Compressed = False\<rparr>"
  define f1 where "f1 = f\<lparr>pos := length ?pre\<rparr>"
  define f2 where "f2 = f1\<lparr>pos := length ?pre + 14\<rparr>"
  define f3 where "f3 = f2\<lparr>pos := length (?pre @ put_BlockMetadata ?md) + length (Encode ?b)\<rparr>"
  have file1: "contents f = ?pre @ put_BlockMetadata ?md @ (Encode ?b @ ?post)"
    using c concat_frames_split [OF i] by (simp add: frame_def)
  have file2: "contents f = (?pre @ put_BlockMetadata ?md) @ Encode ?b @ ?post"
    using file1 by simp
  have lens: "length ?pre + 14 + length (Encode ?b) \<le> length (contents f)"
    by (simp add: file1 length_put_BlockMetadata)
  have h: "BlockHandle_ie (index_of 0 bs ! i)
      = \<lparr>Offset = of_nat (length ?pre), Size = ucast (size_b ?b)\<rparr>"
    using i by (simp add: index_of_nth)
  have s: "File_Seek f (sint (Offset (BlockHandle_ie (index_of 0 bs ! i)))) = Inr f1"
    using File_Seek_ok [of f "length ?pre"] o lens len by (simp add: h f1_def)
  have r1: "File_ReadFull f1 binary_Size_BlockMetadata = (Inr (put_BlockMetadata ?md), f2)"
    unfolding f2_def binary_Size_BlockMetadata_def
    by (rule File_ReadFull_ok [where post = "Encode ?b @ ?post"])
       (simp_all add: f1_def o file1 length_put_BlockMetadata)
  have sz: "unat (of_nat (length (Encode ?b)) :: 32 word) = length (Encode ?b)"
    using len lens by (intro unat_of_nat_u32) simp
  have r2: "File_ReadFull f2 (length (Encode ?b)) = (Inr (Encode ?b), f3)"
    unfolding f3_def
    by (rule File_ReadFull_ok [where post = ?post])
       (simp_all add: f2_def f1_def o file2 length_put_BlockMetadata)
  show ?thesis
    using mp
    by (simp add: readBlock_def s r1 get_put_BlockMetadata sz r2 calculateCRC_def makeslice_def)
qed

lemma sorted_wrt_concat_nth:
  assumes "sorted_wrt R (concat xss)" and "i < length xss"
  shows "sorted_wrt R (xss ! i)"
    and "\<And>j x y. j < i \<Longrightarrow> x \<in> set (xss ! j) \<Longrightarrow> y \<in> set (xss ! i) \<Longrightarrow> R x y"
proof -
  have "xss = take i xss @ xss ! i # drop (Suc i) xss"
    using assms(2) by (rule id_take_nth_drop)
  then have "concat xss = concat (take i xss) @ xss ! i @ concat (drop (Suc i) xss)"
    by (metis concat.simps(2) concat_append)
  with assms(1) have s: "sorted_wrt R (concat (take i xss) @ xss ! i @ concat (drop (Suc i) xss))"
    by simp
  then show "sorted_wrt R (xss ! i)"
    by (simp add: sorted_wrt_append)
  fix j x y
  assume j: "j < i" and x: "x \<in> set (xss ! j)" and y: "y \<in> set (xss ! i)"
  from j assms(2) have "xss ! j \<in> set (take i xss)"
    by (auto simp: in_set_conv_nth intro!: exI [of _ j])
  with x have "x \<in> set (concat (take i xss))" by auto
  with s y show "R x y"
    by (auto simp: sorted_wrt_append)
qed

lemma keys_concat: "map Key (concat (map entries bs)) = concat (map (\<lambda>b. map Key (entries b)) bs)"
  by (simp add: map_concat comp_def)

lemma block_sorted:
  assumes "sorted_wrt (<) (map Key (concat (map entries bs)))" and "i < length bs"
  shows "sorted_wrt (<) (map Key (entries (bs ! i)))"
  using sorted_wrt_concat_nth(1) [of "(<)" "map (\<lambda>b. map Key (entries b)) bs" i] assms
  by (simp add: keys_concat)

lemma block_before:
  assumes "sorted_wrt (<) (map Key (concat (map entries bs)))" and "i < length bs" and "j < i"
    and "x \<in> set (entries (bs ! j))" and "y \<in> set (entries (bs ! i))"
  shows "Key x < Key y"
  using sorted_wrt_concat_nth(2) [of "(<)" "map (\<lambda>b. map Key (entries b)) bs" i j "Key x" "Key y"]
    assms
  by (simp add: keys_concat)

lemma hd_le_member:
  assumes "sorted_wrt (<) (map Key es)" and "e \<in> set es"
  shows "Key (hd es) \<le> Key e"
proof -
  from assms(2) obtain p where p: "p < length es" "es ! p = e"
    by (auto simp: in_set_conv_nth)
  then have ne: "es \<noteq> []" by auto
  show ?thesis
  proof (cases p)
    case 0
    with p ne show ?thesis by (simp add: hd_conv_nth)
  next
    case (Suc q)
    with assms(1) p have "map Key es ! 0 < map Key es ! p"
      using sorted_wrt_nth_less [of "(<)" "map Key es" 0 p] by simp
    with p ne show ?thesis by (simp add: hd_conv_nth)
  qed
qed

lemma Key_ie_index_of:
  "i < length bs \<Longrightarrow> Key_ie (index_of off bs ! i) = Key (hd (entries (bs ! i)))"
  by (simp add: index_of_nth)

lemma index_of_sorted:
  assumes s: "sorted_wrt (<) (map Key (concat (map entries bs)))"
    and ne: "list_all (\<lambda>b. entries b \<noteq> []) bs"
  shows "sorted (map Key_ie (index_of off bs))"
proof -
  have "Key_ie (index_of off bs ! j) \<le> Key_ie (index_of off bs ! i)"
    if "j \<le> i" "i < length bs" for i j
  proof (cases "j = i")
    case True
    then show ?thesis by simp
  next
    case False
    with that have ji: "j < i" by simp
    from ne that ji have "hd (entries (bs ! j)) \<in> set (entries (bs ! j))"
      "hd (entries (bs ! i)) \<in> set (entries (bs ! i))"
      by (simp_all add: list_all_length)
    from block_before [OF s that(2) ji this] ji that show ?thesis
      by (simp add: Key_ie_index_of)
  qed
  then show ?thesis
    by (simp add: sorted_iff_nth_mono length_index_of)
qed

lemma sum_list_ge_length: "(\<Sum>x\<leftarrow>xs. c + g x) \<ge> c * length xs" for c :: nat
  by (induction xs) simp_all

lemma length_Encode:
  "length (Encode b) = 4 + (\<Sum>e\<leftarrow>entries b. 8 + (length (Key e) + length (Value e)))"
proof -
  have "length (concat (map put_Entry es)) = (\<Sum>e\<leftarrow>es. 8 + (length (Key e) + length (Value e)))"
    for es
    by (induction es) (simp_all add: put_Entry_def length_put_u32)
  then show ?thesis by (simp add: Encode_def length_put_u32)
qed

lemma Encode_bounds:
  assumes "length (Encode b) < 2 ^ 32"
  shows "length (entries b) < 2 ^ 32"
    and "\<forall>e\<in>set (entries b). length (Key e) < 2 ^ 32 \<and> length (Value e) < 2 ^ 32"
proof -
  let ?g = "\<lambda>e. length (Key e) + length (Value e)"
  have "8 * length (entries b) \<le> (\<Sum>e\<leftarrow>entries b. 8 + ?g e)"
    by (rule sum_list_ge_length)
  with assms show "length (entries b) < 2 ^ 32"
    by (simp add: length_Encode)
  show "\<forall>e\<in>set (entries b). length (Key e) < 2 ^ 32 \<and> length (Value e) < 2 ^ 32"
  proof
    fix e assume "e \<in> set (entries b)"
    then have "8 + ?g e \<le> (\<Sum>e\<leftarrow>entries b. 8 + ?g e)"
      using member_le_sum_list [of "8 + ?g e" "map (\<lambda>e. 8 + ?g e) (entries b)"] by auto
    with assms show "length (Key e) < 2 ^ 32 \<and> length (Value e) < 2 ^ 32"
      by (simp add: length_Encode)
  qed
qed

lemma length_IBlock_Encode:
  "length (IBlock_Encode ib) = 4 + (\<Sum>e\<leftarrow>entries_ib ib. 20 + length (Key_ie e))"
proof -
  have "length (concat (map put_IndexEntry es)) = (\<Sum>e\<leftarrow>es. 20 + length (Key_ie e))" for es
    by (induction es) (simp_all add: put_IndexEntry_def length_put_u32 length_put_u64)
  then show ?thesis by (simp add: IBlock_Encode_def length_put_u32)
qed

lemma IBlock_Encode_bounds:
  assumes "length (IBlock_Encode ib) < 2 ^ 32"
  shows "length (entries_ib ib) < 2 ^ 32"
    and "\<forall>e\<in>set (entries_ib ib). length (Key_ie e) < 2 ^ 32"
proof -
  have "20 * length (entries_ib ib) \<le> (\<Sum>e\<leftarrow>entries_ib ib. 20 + length (Key_ie e))"
    by (rule sum_list_ge_length)
  with assms show "length (entries_ib ib) < 2 ^ 32"
    by (simp add: length_IBlock_Encode)
  show "\<forall>e\<in>set (entries_ib ib). length (Key_ie e) < 2 ^ 32"
  proof
    fix e assume "e \<in> set (entries_ib ib)"
    then have "20 + length (Key_ie e) \<le> (\<Sum>e\<leftarrow>entries_ib ib. 20 + length (Key_ie e))"
      using member_le_sum_list [of "20 + length (Key_ie e)"
          "map (\<lambda>e. 20 + length (Key_ie e)) (entries_ib ib)"] by auto
    with assms show "length (Key_ie e) < 2 ^ 32"
      by (simp add: length_IBlock_Encode)
  qed
qed

lemma Encode_fits:
  assumes "6 * length (Encode b) \<le> mem"
  shows "48 * length (entries b) \<le> mem"
    and "\<forall>e\<in>set (entries b). length (Key e) \<le> mem \<and> length (Value e) \<le> mem"
    and "length (Encode b) \<le> mem"
proof -
  let ?g = "\<lambda>e. length (Key e) + length (Value e)"
  have "8 * length (entries b) \<le> (\<Sum>e\<leftarrow>entries b. 8 + ?g e)"
    by (rule sum_list_ge_length)
  with assms show "48 * length (entries b) \<le> mem"
    by (simp add: length_Encode)
  show "\<forall>e\<in>set (entries b). length (Key e) \<le> mem \<and> length (Value e) \<le> mem"
  proof
    fix e assume "e \<in> set (entries b)"
    then have "8 + ?g e \<le> (\<Sum>e\<leftarrow>entries b. 8 + ?g e)"
      using member_le_sum_list [of "8 + ?g e" "map (\<lambda>e. 8 + ?g e) (entries b)"] by auto
    with assms show "length (Key e) \<le> mem \<and> length (Value e) \<le> mem"
      by (simp add: length_Encode)
  qed
  from assms show "length (Encode b) \<le> mem" by simp
qed

lemma IBlock_Encode_fits:
  assumes "6 * length (IBlock_Encode ib) \<le> mem"
  shows "40 * length (entries_ib ib) \<le> mem"
    and "\<forall>e\<in>set (entries_ib ib). length (Key_ie e) \<le> mem"
    and "length (IBlock_Encode ib) \<le> mem"
proof -
  have "20 * length (entries_ib ib) \<le> (\<Sum>e\<leftarrow>entries_ib ib. 20 + length (Key_ie e))"
    by (rule sum_list_ge_length)
  with assms show "40 * length (entries_ib ib) \<le> mem"
    by (simp add: length_IBlock_Encode)
  show "\<forall>e\<in>set (entries_ib ib). length (Key_ie e) \<le> mem"
  proof
    fix e assume "e \<in> set (entries_ib ib)"
    then have "20 + length (Key_ie e) \<le> (\<Sum>e\<leftarrow>entries_ib ib. 20 + length (Key_ie e))"
      using member_le_sum_list [of "20 + length (Key_ie e)"
          "map (\<lambda>e. 20 + length (Key_ie e)) (entries_ib ib)"] by auto
    with assms show "length (Key_ie e) \<le> mem"
      by (simp add: length_IBlock_Encode)
  qed
  from assms show "length (IBlock_Encode ib) \<le> mem" by simp
qed

lemma frame_le_frames:
  "i < length bs \<Longrightarrow> length (Encode (bs ! i)) \<le> length (concat (map frame bs))"
  using concat_frames_split [of i bs] by (simp add: length_frame)

lemma fst_Get:
  "indexBlock r = Some ib \<Longrightarrow> findBlockHandle ib key = Inr h \<Longrightarrow>
   fst (readBlock mem (file_r r) h) = Inr b \<Longrightarrow> fst (Get mem r key) = searchInBlock b key"
  by (cases "readBlock mem (file_r r) h") (simp add: Get_def)

lemma readBlock_written:
  assumes c: "contents f = concat (map frame bs) @ rest" and o: "\<not> closed f"
    and i: "i < length bs" and len: "length (contents f) < 2 ^ 32"
    and v: "Value (last (entries (bs ! i))) \<noteq> []"
    and mem: "6 * length (contents f) \<le> mem"
  shows "fst (readBlock mem f (BlockHandle_ie (index_of 0 bs ! i)))
      = Inr \<lparr>entries = entries (bs ! i), size_b = 0\<rparr>"
proof -
  have le: "length (Encode (bs ! i)) \<le> length (contents f)"
    using frame_le_frames [OF i] c by simp
  with len have l: "length (Encode (bs ! i)) < 2 ^ 32" by simp
  from le mem have "6 * length (Encode (bs ! i)) \<le> mem" by simp
  note fits = Encode_fits [OF this]
  note bounds = Encode_bounds [OF l]
  have "readBlock_decode mem (Encode (bs ! i)) = Inr \<lparr>entries = entries (bs ! i), size_b = 0\<rparr>"
    using bounds(1) bounds(2) _ fits(1) fits(2) by (rule readBlock_decode_Encode) (simp add: v)
  with readBlock_file [OF c o i len fits(3)] show ?thesis by simp
qed

lemma Get_on_blocks_written:
  assumes srt: "sorted_wrt (<) (map Key (concat (map entries bs)))"
    and ne: "list_all (\<lambda>b. entries b \<noteq> []) bs"
    and ib: "indexBlock r = Some \<lparr>entries_ib = index_of 0 bs\<rparr>"
    and c: "contents (file_r r) = concat (map frame bs) @ rest"
    and o: "\<not> closed (file_r r)"
    and len: "length (contents (file_r r)) < 2 ^ 32"
    and v: "\<forall>b\<in>set bs. Value (last (entries b)) \<noteq> []"
    and mem: "6 * length (contents (file_r r)) \<le> mem"
    and e: "e \<in> set (concat (map entries bs))"
  shows "fst (Get mem r (Key e)) = Inr (Value e)"
proof -
  let ?es = "index_of 0 bs"
  from e obtain b where "b \<in> set bs" "e \<in> set (entries b)"
    by auto
  then obtain j where j: "j < length bs" and ej: "e \<in> set (entries (bs ! j))"
    by (metis in_set_conv_nth)
  from ej obtain p where p: "p < length (entries (bs ! j))" "entries (bs ! j) ! p = e"
    by (auto simp: in_set_conv_nth)
  have nonempty: "?es \<noteq> []"
    using j length_index_of [of 0 bs] by auto
  have sorted_ix: "sorted (map Key_ie ?es)"
    using srt ne by (rule index_of_sorted)
  from findBlockHandle_entry [OF nonempty sorted_ix, of "Key e"]
  obtain i where i: "i < length ?es"
    and fb: "findBlockHandle \<lparr>entries_ib = ?es\<rparr> (Key e) = Inr (BlockHandle_ie (?es ! i))"
    and sel: "(\<exists>j<length ?es. Key_ie (?es ! j) \<le> Key e) \<longrightarrow>
         Key_ie (?es ! i) \<le> Key e \<and> (\<forall>j<length ?es. Key_ie (?es ! j) \<le> Key e \<longrightarrow> j \<le> i)"
    by blast
  have il: "i < length bs" using i by (simp add: length_index_of)
  have first_j: "Key_ie (?es ! j) \<le> Key e"
    using hd_le_member [OF block_sorted [OF srt j] ej] j by (simp add: Key_ie_index_of)
  with sel j have le: "Key_ie (?es ! i) \<le> Key e" and ji: "j \<le> i"
    by (auto simp: length_index_of)
  have "i = j"
  proof (rule ccontr)
    assume "i \<noteq> j"
    with ji have lt: "j < i" by simp
    from ne il have "hd (entries (bs ! i)) \<in> set (entries (bs ! i))"
      by (simp add: list_all_length)
    from block_before [OF srt il lt ej this] have "Key e < Key_ie (?es ! i)"
      using il by (simp add: Key_ie_index_of)
    with le show False by simp
  qed
  have vj: "Value (last (entries (bs ! j))) \<noteq> []"
    using v j by simp
  have rb: "fst (readBlock mem (file_r r) (BlockHandle_ie (?es ! i)))
      = Inr \<lparr>entries = entries (bs ! j), size_b = 0\<rparr>"
    unfolding \<open>i = j\<close> using c o j len vj mem by (rule readBlock_written)
  have "searchInBlock \<lparr>entries = entries (bs ! j), size_b = 0\<rparr> (Key e) = Inr (Value e)"
    using searchInBlock_found [of "\<lparr>entries = entries (bs ! j), size_b = 0\<rparr>" p "Key e"]
      block_sorted [OF srt j] p by simp
  with fst_Get [OF ib fb rb] show ?thesis by simp
qed

lemma Get_on_blocks_absent:
  assumes srt: "sorted_wrt (<) (map Key (concat (map entries bs)))"
    and ne: "list_all (\<lambda>b. entries b \<noteq> []) bs"
    and ib: "indexBlock r = Some \<lparr>entries_ib = index_of 0 bs\<rparr>"
    and c: "contents (file_r r) = concat (map frame bs) @ rest"
    and o: "\<not> closed (file_r r)"
    and len: "length (contents (file_r r)) < 2 ^ 32"
    and v: "\<forall>b\<in>set bs. Value (last (entries b)) \<noteq> []"
    and mem: "6 * length (contents (file_r r)) \<le> mem"
    and some: "bs \<noteq> []"
    and absent: "\<forall>e\<in>set (concat (map entries bs)). Key e \<noteq> key"
  shows "fst (Get mem r key) = Inl ErrKeyNotFound"
proof -
  let ?es = "index_of 0 bs"
  have nonempty: "?es \<noteq> []"
    using some length_index_of [of 0 bs] by auto
  have sorted_ix: "sorted (map Key_ie ?es)"
    using srt ne by (rule index_of_sorted)
  from findBlockHandle_entry [OF nonempty sorted_ix, of key]
  obtain i where i: "i < length ?es"
    and fb: "findBlockHandle \<lparr>entries_ib = ?es\<rparr> key = Inr (BlockHandle_ie (?es ! i))"
    by blast
  have il: "i < length bs" using i by (simp add: length_index_of)
  have vi: "Value (last (entries (bs ! i))) \<noteq> []"
    using v il by simp
  have rb: "fst (readBlock mem (file_r r) (BlockHandle_ie (?es ! i)))
      = Inr \<lparr>entries = entries (bs ! i), size_b = 0\<rparr>"
    using c o il len vi mem by (rule readBlock_written)
  have "\<forall>e\<in>set (entries (bs ! i)). Key e \<noteq> key"
    using absent il by auto
  then have "searchInBlock \<lparr>entries = entries (bs ! i), size_b = 0\<rparr> key = Inl ErrKeyNotFound"
    by (intro searchInBlock_absent) simp
  with fst_Get [OF ib fb rb] show ?thesis by simp
qed

lemma Get_keeps_file:
  "snd (Get mem r key) = r' \<Longrightarrow>
   indexBlock r' = indexBlock r \<and> contents (file_r r') = contents (file_r r) \<and>
   closed (file_r r') = closed (file_r r)"
proof -
  have rb: "contents f' = contents f \<and> closed f' = closed f" if "readBlock mem f h = (res, f')"
    for f h res f'
    using that
    by (auto simp: readBlock_def Let_def split: sum.splits prod.splits if_splits
        dest!: File_Seek_Inr File_ReadFull_closed)
  assume "snd (Get mem r key) = r'"
  then show ?thesis
    by (auto simp: Get_def split: option.splits sum.splits prod.splits dest: rb)
qed

lemma NewReader_written:
  fixes D :: bytes and ib :: IBlock and now :: "64 word"
  defines "file \<equiv> D @ index_frame ib @ Footer_Encode (footer_of now (length D) ib) @ replicate 11 0"
  assumes fs: "fs name = Some file" and len: "length file < 2 ^ 32"
    and mem: "6 * length file \<le> mem"
  shows "\<exists>p. NewReader mem fs name =
     (Inr \<lparr>file_r = \<lparr>contents = file, pos = p, closed = False\<rparr>, indexBlock = Some ib\<rparr>,
      Some \<lparr>contents = file, pos = p, closed = False\<rparr>)"
proof -
  have le: "length (IBlock_Encode ib) \<le> length file"
    by (simp add: file_def length_index_frame)
  with len have l: "length (IBlock_Encode ib) < 2 ^ 32" by simp
  from le mem have "6 * length (IBlock_Encode ib) \<le> mem" by simp
  note fits = IBlock_Encode_fits [OF this]
  note b = IBlock_Encode_bounds [OF l]
  from loadIndexBlock_file [OF len [unfolded file_def] b(2) b(1) fits(3) fits(1) fits(2),
      of 0 None, folded file_def] fs
  show ?thesis
    by (simp add: NewReader_def os_OpenFile_def)
qed

lemma written_table:
  assumes srt: "sorted_wrt (<) (map fst kvs)"
    and cl: "Close now (write_all kvs) = Inr file"
    and len: "length file < 2 ^ 32"
    and vals: "\<forall>kv\<in>set kvs. snd kv \<noteq> []"
    and fs: "fs name = Some file"
    and mem: "6 * length file \<le> mem"
  shows "\<exists>r. NewReader mem fs name = (Inr r, Some (file_r r)) \<and>
      contents (file_r r) = file \<and> \<not> closed (file_r r) \<and>
      (\<forall>r'. indexBlock r' = indexBlock r \<and> contents (file_r r') = file \<and> \<not> closed (file_r r')
         \<longrightarrow> (\<forall>kv\<in>set kvs. fst (Get mem r' (fst kv)) = Inr (snd kv)) \<and>
             (kvs \<noteq> [] \<longrightarrow> (\<forall>k. k \<notin> fst ` set kvs \<longrightarrow> fst (Get mem r' k) = Inl ErrKeyNotFound)))"
proof -
  from Close_write_all [of kvs now] cl obtain bs where
    ne: "list_all (\<lambda>b. entries b \<noteq> []) bs" and
    cc: "concat (map entries bs) = map mk_Entry kvs" and
    fl: "file = concat (map frame bs) @ index_frame \<lparr>entries_ib = index_of 0 bs\<rparr>
         @ Footer_Encode (footer_of now (length (concat (map frame bs)))
              \<lparr>entries_ib = index_of 0 bs\<rparr>)
         @ replicate 11 0"
    by auto
  let ?ib = "\<lparr>entries_ib = index_of 0 bs\<rparr>"
  from NewReader_written [where D = "concat (map frame bs)" and ib = ?ib and now = now
      and fs = fs and name = name and mem = mem,
      OF fs [unfolded fl] len [unfolded fl] mem [unfolded fl]] obtain p where
    nr: "NewReader mem fs name =
     (Inr \<lparr>file_r = \<lparr>contents = file, pos = p, closed = False\<rparr>, indexBlock = Some ?ib\<rparr>,
      Some \<lparr>contents = file, pos = p, closed = False\<rparr>)"
    unfolding fl [symmetric] by blast
  let ?r = "\<lparr>file_r = \<lparr>contents = file, pos = p, closed = False\<rparr>, indexBlock = Some ?ib\<rparr>"
  have keys: "map Key (concat (map entries bs)) = map fst kvs"
    by (simp add: cc mk_Entry_def comp_def)
  have srt': "sorted_wrt (<) (map Key (concat (map entries bs)))"
    using srt by (simp add: keys)
  have v: "\<forall>b\<in>set bs. Value (last (entries b)) \<noteq> []"
  proof
    fix b assume b: "b \<in> set bs"
    with ne have "entries b \<noteq> []" by (simp add: list_all_iff)
    then have "last (entries b) \<in> set (entries b)" by simp
    with b have "last (entries b) \<in> set (concat (map entries bs))" by auto
    then obtain kv where "kv \<in> set kvs" "last (entries b) = mk_Entry kv"
      by (auto simp: cc)
    with vals show "Value (last (entries b)) \<noteq> []"
      by (simp add: mk_Entry_def)
  qed
  have gets: "(\<forall>kv\<in>set kvs. fst (Get mem r' (fst kv)) = Inr (snd kv)) \<and>
      (kvs \<noteq> [] \<longrightarrow> (\<forall>k. k \<notin> fst ` set kvs \<longrightarrow> fst (Get mem r' k) = Inl ErrKeyNotFound))"
    if r': "indexBlock r' = indexBlock ?r" "contents (file_r r') = file" "\<not> closed (file_r r')"
    for r'
  proof (intro conjI ballI impI allI)
    have ib: "indexBlock r' = Some ?ib" using r'(1) by simp
    have c: "contents (file_r r') = concat (map frame bs) @ index_frame ?ib
         @ Footer_Encode (footer_of now (length (concat (map frame bs))) ?ib) @ replicate 11 0"
      using r'(2) fl by simp
    have l: "length (contents (file_r r')) < 2 ^ 32"
      using r'(2) len by simp
    have m: "6 * length (contents (file_r r')) \<le> mem"
      using r'(2) mem by simp
    {
      fix kv assume "kv \<in> set kvs"
      then have "mk_Entry kv \<in> set (concat (map entries bs))"
        by (simp add: cc)
      from Get_on_blocks_written [OF srt' ne ib c r'(3) l v m this]
      show "fst (Get mem r' (fst kv)) = Inr (snd kv)"
        by (simp add: mk_Entry_def)
    }
    {
      fix k assume some: "kvs \<noteq> []" and k: "k \<notin> fst ` set kvs"
      from some cc have "bs \<noteq> []" by auto
      moreover have "\<forall>e\<in>set (concat (map entries bs)). Key e \<noteq> k"
        using k by (auto simp: cc mk_Entry_def)
      ultimately show "fst (Get mem r' k) = Inl ErrKeyNotFound"
        using Get_on_blocks_absent [OF srt' ne ib c r'(3) l v m] by blast
    }
  qed
  show ?thesis
    using nr gets by (intro exI [of _ ?r]) simp
qed

text \<open>The lemma at the sample file of the pair \<open>("a", "x")\<close>.\<close>

lemma written_table_ax:
  "\<exists>r. NewReader 4096 fs_ax ''ax.sst'' = (Inr r, Some (file_r r)) \<and>
     fst (Get 4096 r [97]) = Inr [120] \<and> fst (Get 4096 r [98]) = Inl ErrKeyNotFound"
proof -
  have s: "sorted_wrt (<) (map fst [([97 :: byte], [120 :: byte])])" by simp
  have l: "length file_ax < 2 ^ 32" by (simp add: file_ax_length)
  have v: "\<forall>kv\<in>set [([97 :: byte], [120 :: byte])]. snd kv \<noteq> []" by simp
  have f: "fs_ax ''ax.sst'' = Some file_ax" by (simp add: fs_ax_def)
  have m: "6 * length file_ax \<le> 4096" by (simp add: file_ax_length)
  from written_table [where fs = fs_ax and name = "''ax.sst''" and mem = 4096,
      OF s Close_ax l v f m] obtain r where
    r: "NewReader 4096 fs_ax ''ax.sst'' = (Inr r, Some (file_r r))"
      "contents (file_r r) = file_ax" "\<not> closed (file_r r)"
    and g: "\<forall>r'. indexBlock r' = indexBlock r \<and> contents (file_r r') = file_ax \<and>
        \<not> closed (file_r r')
         \<longrightarrow> (\<forall>kv\<in>set [([97], [120])]. fst (Get 4096 r' (fst kv)) = Inr (snd kv)) \<and>
             ([([97 :: byte], [120 :: byte])] \<noteq> [] \<longrightarrow>
               (\<forall>k. k \<notin> fst ` set [([97], [120 :: byte])] \<longrightarrow> fst (Get 4096 r' k) = Inl ErrKeyNotFound))"
    by blast
  from g [rule_format, of r] r have "fst (Get 4096 r [97]) = Inr [120]"
    "fst (Get 4096 r [98]) = Inl ErrKeyNotFound"
    by simp_all
  with r(1) show ?thesis by blast
qed

section \<open>Empty values, the empty table and short buffers\<close>

lemma length_e: "length data_e = 13" "length index_e = 25" "length footer_e = 64"
  "length footer_0 = 64"
  by (simp_all add: data_e_def index_e_def footer_e_def footer_0_def)

lemma crc_data_e: "ChecksumIEEE data_e = 1640748473"
  by (simp add: data_e_def eval_crc)

lemma crc_index_e: "ChecksumIEEE index_e = 3950477772"
  by (simp add: index_e_def eval_crc)

lemma crc_index_0: "ChecksumIEEE [0, 0, 0, 0] = 558161692"
  by (simp add: eval_crc)

lemma write_e: "write_all [([97], [])] =
    NewWriter\<lparr>block := \<lparr>entries = [\<lparr>Key = [97], Value = []\<rparr>], size_b = 1\<rparr>\<rparr>"
  by (simp add: write_all_def Write_def IsFull_iff NewWriter_def NewBlock_def AddEntry_def)

lemma Encode_e: "Encode \<lparr>entries = [\<lparr>Key = [97], Value = []\<rparr>], size_b = 1\<rparr> = data_e"
  by (simp add: Encode_def put_Entry_def eval_put data_e_def)

lemma IBlock_Encode_e:
  "IBlock_Encode \<lparr>entries_ib = [\<lparr>Key_ie = [97], BlockHandle_ie = \<lparr>Offset = 0, Size = 1\<rparr>\<rparr>]\<rparr> = index_e"
  by (simp add: IBlock_Encode_def put_IndexEntry_def eval_put index_e_def)

lemma Close_e: "Close 7 (write_all [([97], [])]) = Inr file_e"
  by (simp add: write_e Close_def flushBlock_def IsEmpty_def NewWriter_def NewBlock_def NewIBlock_def
       IBlock_AddEntry_def KeyCount_def Encode_e IBlock_Encode_e length_e crc_data_e crc_index_e
       put_BlockMetadata_def Footer_Encode_def put_BlockHandle_def binary_Size_BlockMetadata_def
       FooterSize_def MagicNumber_def CurrentVersion_def NoCompression_def DataBlock_def IndexBlock_def
       eval_put Let_def calculateCRC_def replicate_11 file_e_def footer_e_def)

lemma file_e_parts: "length file_e = 130" "drop 66 file_e = footer_e"
  "take 14 (drop 27 file_e) = [1, 204, 129, 119, 235, 25, 0, 0, 0, 1, 0, 0, 0, 0]"
  "take 25 (drop 41 file_e) = index_e"
  "take 14 file_e = [0, 185, 213, 203, 97, 13, 0, 0, 0, 1, 0, 0, 0, 0]"
  "take 13 (drop 14 file_e) = data_e"
  by (simp_all add: file_e_def length_e data_e_def index_e_def footer_e_def)

lemma DecodeFooter_e: "DecodeFooter footer_e =
   Inr \<lparr>IndexHandle = \<lparr>Offset = 27, Size = 25\<rparr>, FilterHandle = \<lparr>Offset = 0, Size = 0\<rparr>,
        MagicNumber_f = MagicNumber, Version = 1, CreatedAt = 7, CompressionType_f = 0\<rparr>"
  by (simp add: DecodeFooter_def io_ReadFull_def footer_e_def get_BlockHandle_def get_u64_def
      get_u32_def MagicNumber_def)

lemma get_md_e:
  "get_BlockMetadata [1, 204, 129, 119, 235, 25, 0, 0, 0, 1, 0, 0, 0, 0] =
     \<lparr>Type = 1, CRC = 3950477772, Size_md = 25, KeyCount_md = 1, Compressed = False\<rparr>"
  "get_BlockMetadata [0, 185, 213, 203, 97, 13, 0, 0, 0, 1, 0, 0, 0, 0] =
     \<lparr>Type = 0, CRC = 1640748473, Size_md = 13, KeyCount_md = 1, Compressed = False\<rparr>"
  by (simp_all add: get_BlockMetadata_def get_u32_def)

lemma decode_index_e: "40 \<le> mem \<Longrightarrow> decodeIndexBlock mem r index_e =
   (None, r\<lparr>indexBlock := Some \<lparr>entries_ib = [\<lparr>Key_ie = [97], BlockHandle_ie = \<lparr>Offset = 0, Size = 1\<rparr>\<rparr>]\<rparr>\<rparr>)"
  by (simp add: decodeIndexBlock_def index_e_def io_ReadFull_def Reader_Read_def get_u32_def get_u64_def
      eval_make)

lemma NewReader_e:
  "40 \<le> mem \<Longrightarrow> NewReader mem fs_e ''e.sst'' = (Inr reader_e, Some (file_r reader_e))"
  by (simp add: eval_make NewReader_def fs_e_def os_OpenFile_def loadIndexBlock_def File_Stat_Size_def
      File_Seek_def File_ReadFull_def io_ReadFull_def file_e_parts FooterSize_def
      length_e DecodeFooter_e binary_Size_BlockMetadata_def get_md_e IndexBlock_def
      calculateCRC_def crc_index_e decode_index_e reader_e_def)

lemma decode_data_e:
  "readBlock_decode mem data_e = (if 48 \<le> mem then Inl EOF else Inl FatalOutOfMemory)"
  by (simp add: readBlock_decode_def data_e_def io_ReadFull_def Reader_Read_def get_u32_def
      eval_make)

lemma readBlock_e:
  "fst (readBlock mem (file_r reader_e) \<lparr>Offset = 0, Size = s\<rparr>) =
     (if 48 \<le> mem then Inl EOF else Inl FatalOutOfMemory)"
  by (cases "13 \<le> mem")
     (simp_all add: readBlock_def reader_e_def File_Seek_def File_ReadFull_def io_ReadFull_def
      file_e_parts binary_Size_BlockMetadata_def get_md_e length_e Let_def
      calculateCRC_def crc_data_e decode_data_e makeslice_def)

lemma fst_Get_readBlock:
  "indexBlock r = Some ib \<Longrightarrow> findBlockHandle ib key = Inr h \<Longrightarrow>
   fst (readBlock mem (file_r r) h) = Inl e \<Longrightarrow> fst (Get mem r key) = Inl e"
  by (cases "readBlock mem (file_r r) h") (simp add: Get_def)

text \<open>
  Claim C1, at the input \<open>[("a", "")]\<close>. The writer, closed, leaves \<open>file_e\<close>; \<open>NewReader\<close>
  opens it; \<open>Get\<close> of the written key \<open>"a"\<close> returns \<open>io.EOF\<close>, not the empty value: the
  data block ends with the value's length 0, and \<open>bytes.Reader.Read\<close> at the end of the
  buffer returns \<open>io.EOF\<close> also for an empty slice. (With less than the 48 bytes of one
  entry granted, the call ends in the allocation instead.) Where no value is empty the
  written values are read back (lemma \<open>written_table\<close>).
\<close>

theorem Get_written_key_with_empty_value_fails:
  "Close 7 (write_all [([97], [])]) = Inr file_e \<and>
   (40 \<le> mem \<longrightarrow> NewReader mem fs_e ''e.sst'' = (Inr reader_e, Some (file_r reader_e))) \<and>
   fst (Get mem reader_e [97]) = (if 48 \<le> mem then Inl EOF else Inl FatalOutOfMemory)"
proof -
  have "indexBlock reader_e =
      Some \<lparr>entries_ib = [\<lparr>Key_ie = [97], BlockHandle_ie = \<lparr>Offset = 0, Size = 1\<rparr>\<rparr>]\<rparr>"
    by (simp add: reader_e_def)
  then have "fst (Get mem reader_e [97]) = (if 48 \<le> mem then Inl EOF else Inl FatalOutOfMemory)"
    using find_ax [of 1 "[97]"] readBlock_e [of mem 1]
    by (cases "48 \<le> mem") (simp_all add: fst_Get_readBlock)
  then show ?thesis
    by (simp add: Close_e NewReader_e)
qed

theorem Get_written_key_with_empty_value_fails_witness:
  "Close 7 (write_all [([97], [])]) = Inr file_e \<and>
   NewReader 4096 fs_e ''e.sst'' = (Inr reader_e, Some (file_r reader_e)) \<and>
   fst (Get 4096 reader_e [97]) = Inl EOF"
  using Get_written_key_with_empty_value_fails [of 4096] by simp

lemma Close_0: "Close 7 (write_all []) = Inr file_0"
  by (simp add: write_all_def Close_def flushBlock_def IsEmpty_def NewWriter_def NewBlock_def
       NewIBlock_def IBlock_Encode_def crc_index_0
       put_BlockMetadata_def Footer_Encode_def put_BlockHandle_def binary_Size_BlockMetadata_def
       FooterSize_def MagicNumber_def CurrentVersion_def NoCompression_def IndexBlock_def
       eval_put Let_def calculateCRC_def replicate_11 file_0_def footer_0_def)

lemma file_0_parts: "length file_0 = 82" "drop 18 file_0 = footer_0"
  "take 14 file_0 = [1, 28, 223, 68, 33, 4, 0, 0, 0, 0, 0, 0, 0, 0]"
  "take 4 (drop 14 file_0) = [0, 0, 0, 0]"
  by (simp_all add: file_0_def length_e footer_0_def)

lemma get_md_0:
  "get_BlockMetadata [1, 28, 223, 68, 33, 4, 0, 0, 0, 0, 0, 0, 0, 0] =
     \<lparr>Type = 1, CRC = 558161692, Size_md = 4, KeyCount_md = 0, Compressed = False\<rparr>"
  by (simp add: get_BlockMetadata_def get_u32_def)

lemma NewReader_0:
  "4 \<le> mem \<Longrightarrow> NewReader mem fs_0 ''0.sst'' = (Inr reader_0, Some (file_r reader_0))"
  by (simp add: eval_make NewReader_def fs_0_def os_OpenFile_def loadIndexBlock_def File_Stat_Size_def
      File_Seek_def File_ReadFull_def io_ReadFull_def file_0_parts FooterSize_def
      length_e DecodeFooter_0 binary_Size_BlockMetadata_def get_md_0 IndexBlock_def
      calculateCRC_def crc_index_0 decodeIndexBlock_def get_u32_def reader_0_def)

text \<open>
  Claim C2, at the table with no entry. The writer, closed, leaves \<open>file_0\<close>, whose footer
  and (empty) index block are valid: \<open>NewReader\<close> opens it. \<open>Get\<close> of any key then panics
  in \<open>findBlockHandle\<close> on \<open>entries[right]\<close> with \<open>right = -1\<close>; it does not return
  key-not-found. On a table that is not empty and has no empty value, \<open>Get\<close> of a key
  never written does return key-not-found (lemma \<open>written_table\<close>).
\<close>

theorem Get_on_empty_table_panics:
  "Close 7 (write_all []) = Inr file_0 \<and>
   (4 \<le> mem \<longrightarrow> NewReader mem fs_0 ''0.sst'' = (Inr reader_0, Some (file_r reader_0))) \<and>
   fst (Get mem reader_0 key) = Inl PanicIndexOutOfRange"
  by (simp add: Close_0 NewReader_0 Get_def findBlockHandle_def at_index_def reader_0_def)

theorem Get_on_empty_table_panics_witness:
  "Close 7 (write_all []) = Inr file_0 \<and>
   NewReader 4096 fs_0 ''0.sst'' = (Inr reader_0, Some (file_r reader_0)) \<and>
   fst (Get 4096 reader_0 [97]) = Inl PanicIndexOutOfRange"
  using Get_on_empty_table_panics [of 4096 "[97]"] by simp

lemma replicate_4: "replicate 4 x = [x, x, x, x]"
  by (simp add: numeral_eq_Suc)

text \<open>
  Claim C7, on the data block side. A buffer whose last value declares 5 bytes where 1
  remains is decoded without error, the value padded with zeros; and the encoding of a
  block whose last value is empty is not decoded back but rejected with \<open>io.EOF\<close>. (With
  less than the 48 bytes of one entry granted, the decoding ends in the allocation
  instead.) Decoding does invert \<open>Encode\<close> on a block that does not end with an empty value,
  and \<open>IBlock.Encode\<close> on every index block, where the lengths fit 32 bits and the
  allocations are granted (lemmas \<open>readBlock_decode_Encode\<close> and \<open>decodeIndexBlock_Encode\<close>).
\<close>

theorem readBlock_decode_short_value_succeeds:
  "readBlock_decode mem [1, 0, 0, 0, 1, 0, 0, 0, 97, 5, 0, 0, 0, 120] =
     (if 48 \<le> mem
      then Inr \<lparr>entries = [\<lparr>Key = [97], Value = [120, 0, 0, 0, 0]\<rparr>], size_b = 0\<rparr>
      else Inl FatalOutOfMemory) \<and>
   readBlock_decode mem (Encode \<lparr>entries = [\<lparr>Key = [97], Value = []\<rparr>], size_b = 1\<rparr>) =
     (if 48 \<le> mem then Inl EOF else Inl FatalOutOfMemory)"
  by (simp add: Encode_e decode_data_e)
     (simp add: readBlock_decode_def io_ReadFull_def Reader_Read_def get_u32_def replicate_4
        eval_make)

end
